theory Spec2Isabelle
  imports Main
begin

section \<open>The learning graph of src/learn.ts\<close>

text \<open>
  The theory embeds the scheduling core of \<^verbatim>\<open>src/src/learn.ts\<close>: the node record, the
  unlock pass \<^verbatim>\<open>unlockEligibleNodes\<close>, the selector \<^verbatim>\<open>pickNextNode\<close>, the review scheduler
  \<^verbatim>\<open>scheduleReview\<close> and the part of node creation that fixes the first status
  (\<^verbatim>\<open>buildNodeContents\<close>, and the status line of \<^verbatim>\<open>loadNodes\<close>).

  Conventions of the embedding.
  \<^item> A JavaScript \<^verbatim>\<open>number\<close> that the program uses as a count, a stage, a familiarity, a
    threshold or a number of days is an \<^typ>\<open>int\<close>. Fractions, infinities and the rounding of
    doubles are outside the model; the one place where the program can produce \<^verbatim>\<open>NaN\<close> from
    well-typed data (the time value of a string that is no date) is modelled with
    \<^typ>\<open>int option\<close>, \<^term>\<open>None\<close> standing for \<^verbatim>\<open>NaN\<close>.
  \<^item> A valid \<^verbatim>\<open>Date\<close> is its time value, the milliseconds since the epoch, as an
    \<^typ>\<open>int\<close> within 8.64e15 of 0; an invalid one is \<^term>\<open>None\<close>. Where the source reads
    the clock (\<^verbatim>\<open>new Date()\<close>) the model takes the reading as an argument.
  \<^item> An optional field (\<^verbatim>\<open>summary?: string\<close>) is an \<^typ>\<open>'a option\<close>, \<^term>\<open>None\<close> for
    \<^verbatim>\<open>undefined\<close>.
  \<^item> The parser behind \<^verbatim>\<open>new Date(string)\<close> belongs to the JavaScript runtime; the functions
    that call it take it as the argument \<open>parse\<close>, which returns the time value or
    \<^term>\<open>None\<close> for an invalid date.
\<close>

subsection \<open>Data model\<close>

datatype node_status = Locked | Available | InProgress | Mastered | Paused

datatype rating = Again | Hard | Good | Easy

record LearnNode =
  node_id :: string
  title :: string
  summary :: "string option"
  node_path :: "string option"
  node_type :: "string option"
  status :: node_status
  tags :: "string list"
  prerequisites :: "string list"
  unlocks :: "string list"
  familiarity :: int
  srsStage :: int
  lastReviewed :: "string option"
  nextReview :: "string option"
  created :: "string option"
  updated :: "string option"
  body :: string

text \<open>
  A \<^verbatim>\<open>NodeRecord\<close> pairs a node with its file; \<^verbatim>\<open>raw\<close> is the parsed front matter, which
  the core never reads, so its type is left open.
\<close>

record 'raw NodeRecord =
  node :: LearnNode
  filePath :: string
  relativePath :: string
  raw :: 'raw

text \<open>\<^verbatim>\<open>NextNodeResult\<close>: the fields are \<^verbatim>\<open>node\<close> and \<^verbatim>\<open>reason\<close> in the source.\<close>

record NextNodeResult =
  result_node :: "LearnNode option"
  reason :: "string option"

subsection \<open>JavaScript helpers\<close>

text \<open>\<^verbatim>\<open>clamp(value, min, max) = Math.min(max, Math.max(min, value))\<close>.\<close>

definition clamp :: "int \<Rightarrow> int \<Rightarrow> int \<Rightarrow> int" where
  "clamp v lo hi = min hi (max lo v)"

text \<open>
  \<^verbatim>\<open>xs[i]\<close> on an array of numbers: \<^verbatim>\<open>undefined\<close> outside \<open>0 .. length - 1\<close>, and
  \<^verbatim>\<open>a || b\<close> on such a read: \<^verbatim>\<open>undefined\<close> and \<open>0\<close> are falsy.
\<close>

definition js_index :: "int list \<Rightarrow> int \<Rightarrow> int option" where
  "js_index xs i = (if 0 \<le> i \<and> i < int (length xs) then Some (xs ! nat i) else None)"

definition js_or :: "int option \<Rightarrow> int option \<Rightarrow> int option" where
  "js_or a b = (case a of None \<Rightarrow> b | Some v \<Rightarrow> if v = 0 then b else Some v)"

text \<open>Truthiness of an optional string: \<^verbatim>\<open>undefined\<close> and the empty string are falsy.\<close>

definition truthy :: "string option \<Rightarrow> bool" where
  "truthy s = (case s of None \<Rightarrow> False | Some t \<Rightarrow> t \<noteq> [])"

subsection \<open>Dates, after ECMA-262\<close>

text \<open>
  Time values and the abstract operations of the language standard (section
  ``Time Values and Time Range'' and the ones that follow it), the months counted from 0.
\<close>

definition msPerDay :: int where
  "msPerDay = 86400000"

definition Day :: "int \<Rightarrow> int" where
  "Day t = t div msPerDay"

definition TimeWithinDay :: "int \<Rightarrow> int" where
  "TimeWithinDay t = t mod msPerDay"

definition DaysInYear :: "int \<Rightarrow> int" where
  "DaysInYear y =
     (if y mod 4 \<noteq> 0 then 365 else if y mod 100 \<noteq> 0 then 366
      else if y mod 400 \<noteq> 0 then 365 else 366)"

definition DayFromYear :: "int \<Rightarrow> int" where
  "DayFromYear y =
     365 * (y - 1970) + (y - 1969) div 4 - (y - 1901) div 100 + (y - 1601) div 400"

text \<open>
  \<^verbatim>\<open>YearFromTime(t)\<close> is the largest year \<open>y\<close> with \<open>DayFromYear y \<le> Day t\<close>. It is computed
  here without a search: the days are counted from 1 March of year 0 in eras of 400 years
  (146097 days), \<open>yoe\<close> is the year of the era, \<open>doy\<close> the day of that year counted from
  1 March, and the days from 306 on belong to January and February of the next year.
\<close>

definition YearFromTime :: "int \<Rightarrow> int" where
  "YearFromTime t =
     (let z = Day t + 719468;
          era = z div 146097;
          doe = z mod 146097;
          yoe = (doe - doe div 1460 + doe div 36524 - doe div 146096) div 365;
          doy = doe - (365 * yoe + yoe div 4 - yoe div 100)
      in yoe + era * 400 + (if doy \<ge> 306 then 1 else 0))"

definition InLeapYear :: "int \<Rightarrow> int" where
  "InLeapYear t = (if DaysInYear (YearFromTime t) = 366 then 1 else 0)"

definition DayWithinYear :: "int \<Rightarrow> int" where
  "DayWithinYear t = Day t - DayFromYear (YearFromTime t)"

text \<open>The number of days of a year before its month \<open>m\<close>, in a leap year or not.\<close>

definition daysBeforeMonth :: "int \<Rightarrow> int \<Rightarrow> int" where
  "daysBeforeMonth m leap =
     (if m = 0 then 0 else if m = 1 then 31 else if m = 2 then 59 + leap
      else if m = 3 then 90 + leap else if m = 4 then 120 + leap
      else if m = 5 then 151 + leap else if m = 6 then 181 + leap
      else if m = 7 then 212 + leap else if m = 8 then 243 + leap
      else if m = 9 then 273 + leap else if m = 10 then 304 + leap
      else 334 + leap)"

definition MonthFromTime :: "int \<Rightarrow> int" where
  "MonthFromTime t =
     (let d = DayWithinYear t; leap = InLeapYear t
      in if d < 31 then 0 else if d < 59 + leap then 1 else if d < 90 + leap then 2
         else if d < 120 + leap then 3 else if d < 151 + leap then 4
         else if d < 181 + leap then 5 else if d < 212 + leap then 6
         else if d < 243 + leap then 7 else if d < 273 + leap then 8
         else if d < 304 + leap then 9 else if d < 334 + leap then 10
         else 11)"

definition DateFromTime :: "int \<Rightarrow> int" where
  "DateFromTime t =
     DayWithinYear t - daysBeforeMonth (MonthFromTime t) (InLeapYear t) + 1"

text \<open>
  \<^verbatim>\<open>MakeDay(year, month, date)\<close>: the day number of the first of the month, the month
  carried into the year, plus \<open>date - 1\<close>.
\<close>

definition MakeDay :: "int \<Rightarrow> int \<Rightarrow> int \<Rightarrow> int" where
  "MakeDay year month date =
     (let ym = year + month div 12;
          mn = month mod 12
      in DayFromYear ym + daysBeforeMonth mn (if DaysInYear ym = 366 then 1 else 0)
         + date - 1)"

definition MakeDate :: "int \<Rightarrow> int \<Rightarrow> int" where
  "MakeDate day time = day * msPerDay + time"

text \<open>\<^verbatim>\<open>Date.UTC(year, monthIndex, day)\<close>, the midnight that starts the day.\<close>

definition Date_UTC :: "int \<Rightarrow> int \<Rightarrow> int \<Rightarrow> int" where
  "Date_UTC year month date = MakeDate (MakeDay year month date) 0"

text \<open>
  A time value lies within 8.64e15 ms of the epoch. \<^verbatim>\<open>TimeClip\<close> turns every other number
  into \<^verbatim>\<open>NaN\<close>, here \<^term>\<open>None\<close>; a \<^verbatim>\<open>Date\<close> whose time value is \<^verbatim>\<open>NaN\<close> is an invalid
  date.
\<close>

definition maxTime :: int where
  "maxTime = 8640000000000000"

definition TimeClip :: "int \<Rightarrow> int option" where
  "TimeClip t = (if \<bar>t\<bar> > maxTime then None else Some t)"

text \<open>\<^verbatim>\<open>getUTCDate()\<close> of a valid date with the time value \<open>t\<close>.\<close>

definition getUTCDate :: "int \<Rightarrow> int" where
  "getUTCDate t = DateFromTime t"

text \<open>
  \<^verbatim>\<open>setUTCDate(date)\<close> on a valid date with the time value \<open>t\<close>: the new time value of the
  receiver, which the method clips, so that the receiver may become an invalid date.
\<close>

definition setUTCDate :: "int \<Rightarrow> int \<Rightarrow> int option" where
  "setUTCDate t date =
     TimeClip (MakeDate (MakeDay (YearFromTime t) (MonthFromTime t) date) (TimeWithinDay t))"

text \<open>The decimal digits of a number that is not negative, padded with zeros to a width.\<close>

function digits :: "int \<Rightarrow> string" where
  "digits n = (if n < 10 then [''0123456789'' ! nat n]
               else digits (n div 10) @ [''0123456789'' ! nat (n mod 10)])"
  by pat_completeness auto
termination
  by (relation "measure nat") auto

declare digits.simps [simp del]

definition pad :: "nat \<Rightarrow> int \<Rightarrow> string" where
  "pad w n = (let ds = digits n in replicate (w - length ds) (CHR ''0'') @ ds)"

text \<open>
  \<^verbatim>\<open>toISOString()\<close> of a valid date with the time value \<open>t\<close>:
  \<^verbatim>\<open>YYYY-MM-DDTHH:mm:ss.sssZ\<close>, the year with a sign and six digits outside \<open>0 .. 9999\<close>.
  On an invalid date the method throws a \<^verbatim>\<open>RangeError\<close>; the function that calls it on a
  date that may be invalid, \<^verbatim>\<open>scheduleReview\<close>, has that exception as a result of its own.
\<close>

definition toISOString :: "int \<Rightarrow> string" where
  "toISOString t =
     (let y = YearFromTime t;
          ms = TimeWithinDay t;
          year = (if 0 \<le> y \<and> y \<le> 9999 then pad 4 y
                  else (if y < 0 then ''-'' else ''+'') @ pad 6 \<bar>y\<bar>)
      in year @ ''-'' @ pad 2 (MonthFromTime t + 1) @ ''-'' @ pad 2 (DateFromTime t)
         @ ''T'' @ pad 2 (ms div 3600000) @ '':'' @ pad 2 (ms div 60000 mod 60)
         @ '':'' @ pad 2 (ms div 1000 mod 60) @ ''.'' @ pad 3 (ms mod 1000) @ ''Z'')"

subsection \<open>The review scheduler\<close>

text \<open>
  \<^verbatim>\<open>const intervalDays = intervals[next.srsStage] || intervals[intervals.length - 1] || 1\<close>
\<close>

definition intervalDays :: "int list \<Rightarrow> int \<Rightarrow> int" where
  "intervalDays intervals stage =
     (case js_or (js_index intervals stage)
             (js_or (js_index intervals (int (length intervals) - 1)) (Some 1)) of
        Some v \<Rightarrow> v | None \<Rightarrow> 1)"

text \<open>The exception that \<^verbatim>\<open>scheduleReview\<close> can end with.\<close>

datatype error = RangeError

text \<open>
  \<^verbatim>\<open>scheduleReview(node, rating, intervals, masteryThreshold)\<close>; the last argument is the
  clock reading, of which \<^verbatim>\<open>new Date()\<close> makes the date \<^verbatim>\<open>now\<close>. The input node is copied
  (\<^verbatim>\<open>{ ...node }\<close>), the copy is updated and returned. The two calls of \<^verbatim>\<open>toISOString\<close>
  throw a \<^verbatim>\<open>RangeError\<close> on an invalid date: \<^verbatim>\<open>now.toISOString()\<close> when the clock reading
  is no time value, \<^verbatim>\<open>nextReview.toISOString()\<close> when \<^verbatim>\<open>setUTCDate\<close> has moved the date out
  of the range of time values. Nothing before them throws, so the result is the node or
  the exception.
\<close>

definition scheduleReview ::
  "LearnNode \<Rightarrow> rating \<Rightarrow> int list \<Rightarrow> int \<Rightarrow> int \<Rightarrow> error + LearnNode" where
  "scheduleReview n r intervals masteryThreshold clock =
     (let maxStage = int (length intervals) - 1;
          familiarityDelta = (if r = Again then - 1 else if r = Hard then 0
                              else if r = Good then 1 else 2);
          fam = clamp (familiarity n + familiarityDelta) 0 5;
          stage = (if r = Again then max 0 (srsStage n - 1)
                   else if r = Hard then clamp (srsStage n) 0 maxStage
                   else if r = Good then clamp (srsStage n + 1) 0 maxStage
                   else clamp (srsStage n + 2) 0 maxStage);
          days = intervalDays intervals stage
      in case TimeClip clock of
           None \<Rightarrow> Inl RangeError
         | Some now \<Rightarrow>
            (case setUTCDate now (getUTCDate now + days) of
               None \<Rightarrow> Inl RangeError
             | Some next_review \<Rightarrow>
                 Inr (n\<lparr> familiarity := fam,
                        srsStage := stage,
                        lastReviewed := Some (toISOString now),
                        nextReview := Some (toISOString next_review),
                        status := (if fam \<ge> masteryThreshold then Mastered
                                   else InProgress) \<rparr>)))"

subsection \<open>Sorting\<close>

text \<open>
  \<^verbatim>\<open>Array.prototype.sort(comparator)\<close> is stable. A comparator result \<^verbatim>\<open>NaN\<close> counts as
  \<open>+0\<close>. For a consistent comparator the result is the one stable ordering of the array,
  which inserting the elements from the right computes. For an inconsistent one the
  language leaves the order to the implementation, and \<open>js_sort\<close> is then one such
  order, not that of every engine; the theorems below that speak of a sorted result
  assume what makes the comparator consistent. One case is common to \<open>js_sort\<close> and to
  the sort of V8, the engine of Node: an array in which no element compares above or
  below its successor stays as it is, since V8 starts by measuring the run at the head
  of the array from the comparisons of each element with the one before it
  (\<open>js_sort_run\<close> below).
\<close>

definition SortCompare :: "('a \<Rightarrow> 'a \<Rightarrow> int option) \<Rightarrow> 'a \<Rightarrow> 'a \<Rightarrow> int" where
  "SortCompare comparator x y = (case comparator x y of None \<Rightarrow> 0 | Some v \<Rightarrow> v)"

fun insert_sorted :: "('a \<Rightarrow> 'a \<Rightarrow> int option) \<Rightarrow> 'a \<Rightarrow> 'a list \<Rightarrow> 'a list" where
  "insert_sorted comparator x [] = [x]"
| "insert_sorted comparator x (y # ys) =
     (if SortCompare comparator x y \<le> 0 then x # y # ys
      else y # insert_sorted comparator x ys)"

fun js_sort :: "('a \<Rightarrow> 'a \<Rightarrow> int option) \<Rightarrow> 'a list \<Rightarrow> 'a list" where
  "js_sort comparator [] = []"
| "js_sort comparator (x # xs) = insert_sorted comparator x (js_sort comparator xs)"

text \<open>Subtraction of two numbers either of which may be \<^verbatim>\<open>NaN\<close>.\<close>

definition js_minus :: "int option \<Rightarrow> int option \<Rightarrow> int option" where
  "js_minus a b = (case a of None \<Rightarrow> None
                   | Some x \<Rightarrow> (case b of None \<Rightarrow> None | Some y \<Rightarrow> Some (x - y)))"

subsection \<open>The next-node selector\<close>

text \<open>
  The time value of an optional timestamp, \<open>0\<close> when the field is falsy:
  \<^verbatim>\<open>new Date(s || 0).getTime()\<close> and \<^verbatim>\<open>s ? new Date(s).getTime() : 0\<close>.
\<close>

definition timeOrZero :: "(string \<Rightarrow> int option) \<Rightarrow> string option \<Rightarrow> int option" where
  "timeOrZero parse s =
     (case s of None \<Rightarrow> Some 0 | Some t \<Rightarrow> if t = [] then Some 0 else parse t)"

text \<open>
  The filter of the due records:
  \<^verbatim>\<open>if (!record.node.nextReview) return false; return new Date(record.node.nextReview) <= now\<close>.
  A comparison with an invalid date is false.
\<close>

definition isDue :: "(string \<Rightarrow> int option) \<Rightarrow> int \<Rightarrow> 'raw NodeRecord \<Rightarrow> bool" where
  "isDue parse now record =
     (case nextReview (node record) of
        None \<Rightarrow> False
      | Some s \<Rightarrow> if s = [] then False
                  else (case parse s of None \<Rightarrow> False | Some t \<Rightarrow> t \<le> now))"

definition compareDue ::
  "(string \<Rightarrow> int option) \<Rightarrow> 'raw NodeRecord \<Rightarrow> 'raw NodeRecord \<Rightarrow> int option" where
  "compareDue parse a b =
     (let aTime = timeOrZero parse (nextReview (node a));
          bTime = timeOrZero parse (nextReview (node b))
      in js_minus aTime bTime)"

definition compareAvailable ::
  "(string \<Rightarrow> int option) \<Rightarrow> 'raw NodeRecord \<Rightarrow> 'raw NodeRecord \<Rightarrow> int option" where
  "compareAvailable parse a b =
     (if familiarity (node a) \<noteq> familiarity (node b)
      then Some (familiarity (node a) - familiarity (node b))
      else (let aCreated = timeOrZero parse (created (node a));
                bCreated = timeOrZero parse (created (node b))
            in js_minus aCreated bCreated))"

definition compareFamiliarity :: "'raw NodeRecord \<Rightarrow> 'raw NodeRecord \<Rightarrow> int option" where
  "compareFamiliarity a b = Some (familiarity (node a) - familiarity (node b))"

text \<open>
  \<^verbatim>\<open>pickNextNode(records)\<close>; \<open>now\<close> is the clock reading. Each \<^verbatim>\<open>sort\<close> works on the
  array its \<^verbatim>\<open>filter\<close> has just built, so the input array keeps its order.
\<close>

definition pickNextNode ::
  "(string \<Rightarrow> int option) \<Rightarrow> 'raw NodeRecord list \<Rightarrow> int \<Rightarrow> NextNodeResult" where
  "pickNextNode parse records now =
     (let unlocked = filter (\<lambda>record. status (node record) \<noteq> Locked) records;
          due = filter (isDue parse now) unlocked
      in if due \<noteq> []
         then (let selected = hd (js_sort (compareDue parse) due)
               in \<lparr> result_node = Some (node selected), reason = Some ''due-review'' \<rparr>)
         else
          (let available = filter (\<lambda>record. status (node record) = Available) unlocked
           in if available \<noteq> []
              then (let selected = hd (js_sort (compareAvailable parse) available)
                    in \<lparr> result_node = Some (node selected), reason = Some ''new-available'' \<rparr>)
              else
               (let inProgress = filter (\<lambda>record. status (node record) = InProgress) unlocked
                in if inProgress \<noteq> []
                   then (let selected = hd (js_sort compareFamiliarity inProgress)
                         in \<lparr> result_node = Some (node selected), reason = Some ''continue'' \<rparr>)
                   else \<lparr> result_node = None, reason = None \<rparr>)))"

subsection \<open>The unlock pass\<close>

text \<open>
  The records are objects that the pass mutates in place while the lookup table
  \<^verbatim>\<open>byId\<close> refers to the same objects. The model keeps the objects in a store, the list of
  records, addressed by their position in the input array; \<^verbatim>\<open>byId\<close> maps an id to the
  position of the record it refers to. \<^verbatim>\<open>new Map(entries)\<close> sets the entries in order, so
  a later record replaces an earlier one of the same id.
\<close>

definition byId :: "'raw NodeRecord list \<Rightarrow> string \<Rightarrow> nat option" where
  "byId records =
     fold (\<lambda>i m. m(node_id (node (records ! i)) \<mapsto> i)) [0..<length records] Map.empty"

text \<open>\<^verbatim>\<open>byId.get(id)?.node\<close>, read from the store as it is at the time of the call.\<close>

definition getNode ::
  "'raw NodeRecord list \<Rightarrow> (string \<Rightarrow> nat option) \<Rightarrow> string \<Rightarrow> LearnNode option" where
  "getNode store ids pid = (case ids pid of None \<Rightarrow> None | Some j \<Rightarrow> Some (node (store ! j)))"

definition meetsPrereqs ::
  "'raw NodeRecord list \<Rightarrow> (string \<Rightarrow> nat option) \<Rightarrow> int \<Rightarrow> 'raw NodeRecord \<Rightarrow> bool" where
  "meetsPrereqs store ids masteryThreshold record =
     list_all
       (\<lambda>pid. case getNode store ids pid of
                None \<Rightarrow> False
              | Some prereq \<Rightarrow> status prereq = Mastered \<or> familiarity prereq \<ge> masteryThreshold)
       (prerequisites (node record))"

text \<open>The assignment \<^verbatim>\<open>record.node.status = "available"\<close>.\<close>

definition setAvailable :: "'raw NodeRecord \<Rightarrow> 'raw NodeRecord" where
  "setAvailable record = record\<lparr> node := (node record)\<lparr> status := Available \<rparr> \<rparr>"

text \<open>
  One round of \<^verbatim>\<open>records.forEach\<close>, on the record at position \<open>i\<close>: the state is the store
  and the array \<^verbatim>\<open>unlocked\<close>, which holds references to records, here their positions.
\<close>

definition unlockStep ::
  "(string \<Rightarrow> nat option) \<Rightarrow> int \<Rightarrow> nat \<Rightarrow> 'raw NodeRecord list \<times> nat list
     \<Rightarrow> 'raw NodeRecord list \<times> nat list" where
  "unlockStep ids masteryThreshold i st =
     (let store = fst st; unlocked = snd st; record = store ! i
      in if status (node record) \<noteq> Locked then (store, unlocked)
         else if meetsPrereqs store ids masteryThreshold record
         then (store[i := setAvailable record], unlocked @ [i])
         else (store, unlocked))"

text \<open>
  \<^verbatim>\<open>unlockEligibleNodes(records, masteryThreshold)\<close>: the records after the pass, and the
  positions of the records in the returned array, in its order.
\<close>

definition unlockEligibleNodes ::
  "'raw NodeRecord list \<Rightarrow> int \<Rightarrow> 'raw NodeRecord list \<times> nat list" where
  "unlockEligibleNodes records masteryThreshold =
     fold (unlockStep (byId records) masteryThreshold) [0..<length records] (records, [])"

text \<open>
  The reading of the unlock pass on a snapshot: every locked record is tested against the
  records as they were before the call, and the ones that pass are set to available.
\<close>

definition unlocksOnSnapshot :: "'raw NodeRecord list \<Rightarrow> int \<Rightarrow> 'raw NodeRecord \<Rightarrow> bool" where
  "unlocksOnSnapshot snapshot masteryThreshold record =
     (status (node record) = Locked
      \<and> meetsPrereqs snapshot (byId snapshot) masteryThreshold record)"

definition unlockFromSnapshot ::
  "'raw NodeRecord list \<Rightarrow> int \<Rightarrow> 'raw NodeRecord list \<times> nat list" where
  "unlockFromSnapshot snapshot masteryThreshold =
     (map (\<lambda>record. if unlocksOnSnapshot snapshot masteryThreshold record
                     then setAvailable record else record) snapshot,
      filter (\<lambda>i. unlocksOnSnapshot snapshot masteryThreshold (snapshot ! i))
        [0..<length snapshot])"

subsection \<open>Node creation\<close>

text \<open>
  \<^verbatim>\<open>slugify\<close>: lower case, every run of characters outside \<^verbatim>\<open>[a-z0-9]\<close> replaced by one
  dash, the dashes at both ends removed, and the first 80 characters kept. The model reads
  a string as a list of 8-bit characters and \<^verbatim>\<open>toLowerCase\<close> as acting on the letters
  \<open>A .. Z\<close> only.
\<close>

definition toLowerCase :: "string \<Rightarrow> string" where
  "toLowerCase s =
     map (\<lambda>c. if 65 \<le> (of_char c :: nat) \<and> (of_char c :: nat) \<le> 90
              then char_of ((of_char c :: nat) + 32) else c) s"

definition isSlugChar :: "char \<Rightarrow> bool" where
  "isSlugChar c =
     ((97 \<le> (of_char c :: nat) \<and> (of_char c :: nat) \<le> 122)
      \<or> (48 \<le> (of_char c :: nat) \<and> (of_char c :: nat) \<le> 57))"

text \<open>The flag says that the dash of the current run has been written.\<close>

fun dashRuns :: "bool \<Rightarrow> string \<Rightarrow> string" where
  "dashRuns inRun [] = []"
| "dashRuns inRun (c # cs) =
     (if isSlugChar c then c # dashRuns False cs
      else if inRun then dashRuns True cs
      else CHR ''-'' # dashRuns True cs)"

definition trimDashes :: "string \<Rightarrow> string" where
  "trimDashes s =
     rev (dropWhile (\<lambda>c. c = CHR ''-'') (rev (dropWhile (\<lambda>c. c = CHR ''-'') s)))"

definition slugify :: "string \<Rightarrow> string" where
  "slugify v = take 80 (trimDashes (dashRuns False (toLowerCase v)))"

text \<open>\<^verbatim>\<open>a || b\<close> on an optional string and a string.\<close>

definition strOr :: "string option \<Rightarrow> string \<Rightarrow> string" where
  "strOr a b = (case a of None \<Rightarrow> b | Some s \<Rightarrow> if s = [] then b else s)"

text \<open>\<^verbatim>\<open>a || []\<close> on an optional array: every array is truthy.\<close>

definition listOr :: "'a list option \<Rightarrow> 'a list" where
  "listOr a = (case a of None \<Rightarrow> [] | Some xs \<Rightarrow> xs)"

text \<open>\<^verbatim>\<open>NodeInput\<close>, and the front matter \<^verbatim>\<open>data\<close> that \<^verbatim>\<open>buildNodeContents\<close> writes.\<close>

record NodeInput =
  in_title :: string
  in_body :: string
  in_summary :: "string option"
  in_path :: "string option"
  in_type :: "string option"
  in_status :: "string option"
  in_tags :: "string list option"
  in_prerequisites :: "string list option"
  in_unlocks :: "string list option"
  in_relativePath :: "string option"
  in_id :: "string option"
  in_overwrite :: "bool option"

record NodeData =
  fm_id :: string
  fm_title :: string
  fm_summary :: "string option"
  fm_path :: "string option"
  fm_type :: string
  fm_status :: string
  fm_tags :: "string list"
  fm_prerequisites :: "string list"
  fm_unlocks :: "string list"
  fm_familiarity :: int
  fm_srs_stage :: int
  fm_last_reviewed :: "string option"
  fm_next_review :: "string option"
  fm_created :: string
  fm_updated :: string

text \<open>
  \<^verbatim>\<open>buildNodeContents(input)\<close> returns \<^verbatim>\<open>matter.stringify(input.body, data, ...)\<close>. The
  serialiser belongs to the document store; the model returns its two arguments, the
  front matter and the body. \<open>now\<close> is the clock reading; \<^verbatim>\<open>null\<close> is \<^term>\<open>None\<close>.
\<close>

definition buildNodeContents :: "NodeInput \<Rightarrow> int \<Rightarrow> NodeData \<times> string" where
  "buildNodeContents input now =
     (let nowIso = toISOString now;
          pathSlug = (if truthy (in_path input) then slugify (strOr (in_path input) [])
                      else ''general'');
          nodeSlug = slugify (in_title input);
          ident = strOr (in_id input) (pathSlug @ ''/'' @ nodeSlug);
          st = strOr (in_status input) ''available''
      in (\<lparr> fm_id = ident,
            fm_title = in_title input,
            fm_summary = in_summary input,
            fm_path = in_path input,
            fm_type = strOr (in_type input) ''concept'',
            fm_status = st,
            fm_tags = listOr (in_tags input),
            fm_prerequisites = listOr (in_prerequisites input),
            fm_unlocks = listOr (in_unlocks input),
            fm_familiarity = 0,
            fm_srs_stage = 0,
            fm_last_reviewed = None,
            fm_next_review = None,
            fm_created = nowIso,
            fm_updated = nowIso \<rparr>,
          in_body input))"

text \<open>\<^verbatim>\<open>normalizeStatus\<close> and \<^verbatim>\<open>normalizeFamiliarity\<close> of \<^verbatim>\<open>loadNodes\<close>.\<close>

definition normalizeStatus :: "string option \<Rightarrow> node_status" where
  "normalizeStatus st =
     (if \<not> truthy st then Available
      else if st = Some ''locked'' then Locked
      else if st = Some ''in-progress'' then InProgress
      else if st = Some ''mastered'' then Mastered
      else if st = Some ''paused'' then Paused
      else Available)"

text \<open>The argument is \<^term>\<open>None\<close> for a front matter value that is no number.\<close>

definition normalizeFamiliarity :: "int option \<Rightarrow> int" where
  "normalizeFamiliarity v = (case v of None \<Rightarrow> 0 | Some k \<Rightarrow> clamp k 0 5)"

text \<open>
  The status that \<^verbatim>\<open>loadNodes\<close> gives a node, from the status and the prerequisites of its
  front matter:
  \<^verbatim>\<open>normalizeStatus(data.status || (prerequisites.length ? "locked" : "available"))\<close>.
\<close>

definition loadedStatus :: "string option \<Rightarrow> string list \<Rightarrow> node_status" where
  "loadedStatus dataStatus prereqs =
     normalizeStatus (Some (strOr dataStatus (if length prereqs \<noteq> 0 then ''locked''
                                               else ''available'')))"

subsection \<open>The first least element of a list\<close>

text \<open>
  What \<^verbatim>\<open>sort(...)[0]\<close> selects when the comparator is a total preorder on the elements:
  an element with nothing strictly below it, and the first such in the order of the list.
\<close>

definition first_least :: "('a \<Rightarrow> 'a \<Rightarrow> bool) \<Rightarrow> 'a list \<Rightarrow> 'a \<Rightarrow> bool" where
  "first_least le xs s =
     (\<exists>pre post. xs = pre @ s # post
        \<and> (\<forall>p\<in>set pre. \<not> le p s) \<and> (\<forall>p\<in>set post. le s p))"

subsection \<open>Sample data\<close>

text \<open>A node with familiarity 2 at stage 1, paused, and an input that declares a prerequisite.\<close>

definition nodeC :: LearnNode where
  "nodeC = \<lparr> node_id = ''nix/store'', title = ''Nix store basics'', summary = None,
       node_path = Some ''nix'', node_type = Some ''concept'', status = Paused, tags = [],
       prerequisites = [], unlocks = [], familiarity = 2, srsStage = 1,
       lastReviewed = None, nextReview = None, created = None, updated = None,
       body = [] \<rparr>"

definition inputB :: NodeInput where
  "inputB = \<lparr> in_title = ''Nix Derivations'', in_body = ''Body'', in_summary = None,
       in_path = Some ''Nix'', in_type = None, in_status = None, in_tags = None,
       in_prerequisites = Some [''nix/store-basics''], in_unlocks = None,
       in_relativePath = None, in_id = None, in_overwrite = None \<rparr>"

text \<open>
  Records for the selector. The sample parser knows three dates; the clock of the samples
  reads 2024-01-01T00:00:00Z.
\<close>

definition parseSample :: "string \<Rightarrow> int option" where
  "parseSample s =
     (if s = ''2023-01-01T00:00:00.000Z'' then Some (Date_UTC 2023 0 1)
      else if s = ''2023-12-30T00:00:00.000Z'' then Some (Date_UTC 2023 11 30)
      else if s = ''2023-12-31T00:00:00.000Z'' then Some (Date_UTC 2023 11 31)
      else None)"

definition sampleNode :: "string \<Rightarrow> node_status \<Rightarrow> int \<Rightarrow> string list \<Rightarrow> LearnNode" where
  "sampleNode i st fam pre =
     \<lparr> node_id = i, title = i, summary = None, node_path = None, node_type = None,
       status = st, tags = [], prerequisites = pre, unlocks = [], familiarity = fam,
       srsStage = 0, lastReviewed = None, nextReview = None, created = None,
       updated = None, body = [] \<rparr>"

definition sampleRecord :: "LearnNode \<Rightarrow> unit NodeRecord" where
  "sampleRecord n = \<lparr> node = n, filePath = ''/library/nodes/'' @ node_id n @ ''.md'',
       relativePath = ''nodes/'' @ node_id n @ ''.md'', raw = () \<rparr>"

definition nodeD :: LearnNode where
  "nodeD = (sampleNode ''p/d'' Available 1 [])\<lparr> created := Some ''2023-01-01T00:00:00.000Z'' \<rparr>"

definition nodeE :: LearnNode where
  "nodeE = sampleNode ''p/e'' InProgress 0 []"

definition nodeF :: LearnNode where
  "nodeF = (sampleNode ''p/f'' InProgress 3 [])\<lparr> nextReview := Some ''2023-12-31T00:00:00.000Z'' \<rparr>"

definition nodeG :: LearnNode where
  "nodeG = (sampleNode ''p/g'' Mastered 5 [])\<lparr> nextReview := Some ''2023-12-30T00:00:00.000Z'' \<rparr>"

definition nodeH :: LearnNode where
  "nodeH = (sampleNode ''p/h'' Paused 2 [])\<lparr> nextReview := Some ''2023-12-30T00:00:00.000Z'' \<rparr>"

definition recordsDE :: "unit NodeRecord list" where
  "recordsDE = [sampleRecord nodeE, sampleRecord nodeD]"

text \<open>
  Three more available nodes: \<open>p/p\<close> and \<open>p/q\<close> with the familiarity of \<open>p/d\<close>, the second
  without \<^verbatim>\<open>created\<close>, and \<open>p/r\<close> with a higher familiarity and the earliest date.
\<close>

definition nodeP :: LearnNode where
  "nodeP = (sampleNode ''p/p'' Available 1 [])\<lparr> created := Some ''2023-12-30T00:00:00.000Z'' \<rparr>"

definition nodeQ :: LearnNode where
  "nodeQ = sampleNode ''p/q'' Available 1 []"

definition nodeR :: LearnNode where
  "nodeR = (sampleNode ''p/r'' Available 2 [])\<lparr> created := Some ''2023-01-01T00:00:00.000Z'' \<rparr>"

definition recordsNew :: "unit NodeRecord list" where
  "recordsNew = [sampleRecord nodeR, sampleRecord nodeE, sampleRecord nodeP,
                 sampleRecord nodeQ, sampleRecord nodeD]"

text \<open>
  Three available nodes of familiarity 0, the second with a \<^verbatim>\<open>created\<close> that is no date;
  \<^verbatim>\<open>loadNodes\<close> passes the field on as the file has it.
\<close>

definition nodeX :: LearnNode where
  "nodeX = (sampleNode ''p/x'' Available 0 [])\<lparr> created := Some ''2023-12-30T00:00:00.000Z'' \<rparr>"

definition nodeY :: LearnNode where
  "nodeY = (sampleNode ''p/y'' Available 0 [])\<lparr> created := Some ''not a date'' \<rparr>"

definition nodeZ :: LearnNode where
  "nodeZ = (sampleNode ''p/z'' Available 0 [])\<lparr> created := Some ''2023-01-01T00:00:00.000Z'' \<rparr>"

definition recordsXYZ :: "unit NodeRecord list" where
  "recordsXYZ = [sampleRecord nodeX, sampleRecord nodeY, sampleRecord nodeZ]"

definition recordsDue :: "unit NodeRecord list" where
  "recordsDue = [sampleRecord nodeE, sampleRecord nodeD, sampleRecord nodeF,
                 sampleRecord nodeG, sampleRecord nodeH]"

definition recordsLocked :: "unit NodeRecord list" where
  "recordsLocked = [sampleRecord ((sampleNode ''p/k'' Locked 0 [''p/e''])
                      \<lparr> nextReview := Some ''2023-01-01T00:00:00.000Z'' \<rparr>),
                    sampleRecord nodeE]"

text \<open>
  Records for the unlock pass: a mastered node, a locked node that depends on it, and a
  locked node that depends on the second.
\<close>

definition nodeA :: LearnNode where
  "nodeA = sampleNode ''p/a'' Mastered 2 []"

definition nodeB :: LearnNode where
  "nodeB = sampleNode ''p/b'' Locked 0 [''p/a'']"

definition nodeAfterB :: LearnNode where
  "nodeAfterB = sampleNode ''p/after-b'' Locked 0 [''p/b'']"


definition recordsChain :: "unit NodeRecord list" where
  "recordsChain = [sampleRecord nodeA, sampleRecord nodeB, sampleRecord nodeAfterB]"

section \<open>Properties of the date operations\<close>

lemma MonthFromTime_range: "0 \<le> MonthFromTime t \<and> MonthFromTime t \<le> 11"
  by (simp add: MonthFromTime_def Let_def)

lemma MakeDay_of_time:
  "MakeDay (YearFromTime t) (MonthFromTime t) (DateFromTime t + n) = Day t + n"
proof -
  have m: "0 \<le> MonthFromTime t" "MonthFromTime t \<le> 11"
    using MonthFromTime_range [of t] by simp_all
  then have "MonthFromTime t div 12 = 0" "MonthFromTime t mod 12 = MonthFromTime t"
    by simp_all
  then show ?thesis
    by (simp add: MakeDay_def Let_def DateFromTime_def DayWithinYear_def InLeapYear_def)
qed

text \<open>
  \<^verbatim>\<open>d.setUTCDate(d.getUTCDate() + n)\<close> moves the time value by \<open>n\<close> whole days and keeps
  the time within the day; the date becomes invalid when that leaves the range of time
  values.
\<close>

lemma setUTCDate_adds_days:
  "setUTCDate t (getUTCDate t + n) = TimeClip (t + n * msPerDay)"
proof -
  have "MakeDate (MakeDay (YearFromTime t) (MonthFromTime t) (getUTCDate t + n))
          (TimeWithinDay t) = (Day t + n) * msPerDay + TimeWithinDay t"
    by (simp add: getUTCDate_def MakeDate_def MakeDay_of_time)
  also have "\<dots> = t + n * msPerDay"
    by (simp add: Day_def TimeWithinDay_def algebra_simps)
  finally show ?thesis by (simp add: setUTCDate_def)
qed

lemma TimeClip_Some: "\<bar>t\<bar> \<le> maxTime \<Longrightarrow> TimeClip t = Some t"
  by (simp add: TimeClip_def)

lemma TimeClip_None: "\<not> \<bar>t\<bar> \<le> maxTime \<Longrightarrow> TimeClip t = None"
  by (simp add: TimeClip_def)

text \<open>The calendar at some days around the ends of months, years and centuries.\<close>

lemma toISOString_epoch: "toISOString 0 = ''1970-01-01T00:00:00.000Z''"
  by code_simp

lemma toISOString_before_epoch: "toISOString (- 1) = ''1969-12-31T23:59:59.999Z''"
  by code_simp

lemma toISOString_leap_day_2000: "toISOString 951782400000 = ''2000-02-29T00:00:00.000Z''"
  by code_simp

lemma toISOString_leap_day_2024: "toISOString 1709251199999 = ''2024-02-29T23:59:59.999Z''"
  by code_simp

lemma toISOString_no_leap_day_1900:
  "toISOString (Date_UTC 1900 2 1 - 1) = ''1900-02-28T23:59:59.999Z''"
  by code_simp

lemma toISOString_end_of_year:
  "toISOString (Date_UTC 2024 12 1 - 1) = ''2024-12-31T23:59:59.999Z''"
  by code_simp

lemma toISOString_year_before_0:
  "toISOString (Date_UTC 0 0 1 - 1) = ''-000001-12-31T23:59:59.999Z''"
  by code_simp

lemma toISOString_year_10000:
  "toISOString (Date_UTC 10000 0 1) = ''+010000-01-01T00:00:00.000Z''"
  by code_simp

section \<open>Properties of the review scheduler\<close>

lemma toISOString_nonempty: "toISOString t \<noteq> []"
  by (simp add: toISOString_def Let_def)

lemma clamp_range: "lo \<le> hi \<Longrightarrow> lo \<le> clamp v lo hi \<and> clamp v lo hi \<le> hi"
  by (simp add: clamp_def)

lemma clamp_empty_range: "hi < lo \<Longrightarrow> clamp v lo hi = hi"
  by (simp add: clamp_def)

text \<open>
  The scheduler in one equation. It returns when the time of the review and the time of
  the next review, which is the time of the review plus the days of the new stage, are
  both time values, and throws \<^verbatim>\<open>RangeError\<close> otherwise: \<^verbatim>\<open>setUTCDate\<close> leaves an invalid
  date behind and \<^verbatim>\<open>toISOString\<close> refuses it.
\<close>

lemma scheduleReview_eq:
  "scheduleReview n r intervals thr now =
     (if \<bar>now\<bar> \<le> maxTime
         \<and> \<bar>now + intervalDays intervals
                    (if r = Again then max 0 (srsStage n - 1)
                     else clamp (srsStage n + (if r = Hard then 0 else if r = Good then 1 else 2))
                            0 (int (length intervals) - 1)) * msPerDay\<bar> \<le> maxTime
      then Inr (n\<lparr> familiarity :=
                     clamp (familiarity n + (if r = Again then - 1 else if r = Hard then 0
                                             else if r = Good then 1 else 2)) 0 5,
                   srsStage :=
                     (if r = Again then max 0 (srsStage n - 1)
                      else clamp (srsStage n + (if r = Hard then 0 else if r = Good then 1 else 2))
                             0 (int (length intervals) - 1)),
                   lastReviewed := Some (toISOString now),
                   nextReview := Some (toISOString (now + intervalDays intervals
                     (if r = Again then max 0 (srsStage n - 1)
                      else clamp (srsStage n + (if r = Hard then 0 else if r = Good then 1 else 2))
                             0 (int (length intervals) - 1)) * msPerDay)),
                   status := (if clamp (familiarity n + (if r = Again then - 1 else if r = Hard then 0
                                             else if r = Good then 1 else 2)) 0 5 \<ge> thr
                              then Mastered else InProgress) \<rparr>)
      else Inl RangeError)"
  by (cases r) (simp_all add: scheduleReview_def Let_def TimeClip_def setUTCDate_adds_days)

lemma scheduleReview_throws:
  "\<not> (\<bar>now\<bar> \<le> maxTime
       \<and> \<bar>now + intervalDays intervals
                    (if r = Again then max 0 (srsStage n - 1)
                     else clamp (srsStage n + (if r = Hard then 0 else if r = Good then 1 else 2))
                            0 (int (length intervals) - 1)) * msPerDay\<bar> \<le> maxTime)
   \<Longrightarrow> scheduleReview n r intervals thr now = Inl RangeError"
  by (simp only: scheduleReview_eq if_False)

text \<open>The familiarity and the stage of a returned node.\<close>

lemma scheduleReview_returns:
  assumes "scheduleReview n r intervals thr now = Inr n'"
  shows "familiarity n' = clamp (familiarity n + (if r = Again then - 1 else if r = Hard then 0
                                                  else if r = Good then 1 else 2)) 0 5"
    and "srsStage n' = (if r = Again then max 0 (srsStage n - 1)
                        else clamp (srsStage n + (if r = Hard then 0 else if r = Good then 1 else 2))
                               0 (int (length intervals) - 1))"
proof -
  let ?ok = "\<bar>now\<bar> \<le> maxTime
       \<and> \<bar>now + intervalDays intervals
                    (if r = Again then max 0 (srsStage n - 1)
                     else clamp (srsStage n + (if r = Hard then 0 else if r = Good then 1 else 2))
                            0 (int (length intervals) - 1)) * msPerDay\<bar> \<le> maxTime"
  have ok: ?ok
  proof (rule ccontr)
    assume "\<not> ?ok"
    then have "scheduleReview n r intervals thr now = Inl RangeError"
      by (rule scheduleReview_throws)
    with assms show False by simp
  qed
  have "scheduleReview n r intervals thr now =
      Inr (n\<lparr> familiarity :=
                     clamp (familiarity n + (if r = Again then - 1 else if r = Hard then 0
                                             else if r = Good then 1 else 2)) 0 5,
                   srsStage :=
                     (if r = Again then max 0 (srsStage n - 1)
                      else clamp (srsStage n + (if r = Hard then 0 else if r = Good then 1 else 2))
                             0 (int (length intervals) - 1)),
                   lastReviewed := Some (toISOString now),
                   nextReview := Some (toISOString (now + intervalDays intervals
                     (if r = Again then max 0 (srsStage n - 1)
                      else clamp (srsStage n + (if r = Hard then 0 else if r = Good then 1 else 2))
                             0 (int (length intervals) - 1)) * msPerDay)),
                   status := (if clamp (familiarity n + (if r = Again then - 1 else if r = Hard then 0
                                             else if r = Good then 1 else 2)) 0 5 \<ge> thr
                              then Mastered else InProgress) \<rparr>)"
    using ok by (simp add: scheduleReview_eq)
  with assms have n': "n' = n\<lparr> familiarity :=
                     clamp (familiarity n + (if r = Again then - 1 else if r = Hard then 0
                                             else if r = Good then 1 else 2)) 0 5,
                   srsStage :=
                     (if r = Again then max 0 (srsStage n - 1)
                      else clamp (srsStage n + (if r = Hard then 0 else if r = Good then 1 else 2))
                             0 (int (length intervals) - 1)),
                   lastReviewed := Some (toISOString now),
                   nextReview := Some (toISOString (now + intervalDays intervals
                     (if r = Again then max 0 (srsStage n - 1)
                      else clamp (srsStage n + (if r = Hard then 0 else if r = Good then 1 else 2))
                             0 (int (length intervals) - 1)) * msPerDay)),
                   status := (if clamp (familiarity n + (if r = Again then - 1 else if r = Hard then 0
                                             else if r = Good then 1 else 2)) 0 5 \<ge> thr
                              then Mastered else InProgress) \<rparr>"
    by simp
  show "familiarity n' = clamp (familiarity n + (if r = Again then - 1 else if r = Hard then 0
                                                  else if r = Good then 1 else 2)) 0 5"
    by (subst n') simp
  show "srsStage n' = (if r = Again then max 0 (srsStage n - 1)
                        else clamp (srsStage n + (if r = Hard then 0 else if r = Good then 1 else 2))
                               0 (int (length intervals) - 1))"
    by (subst n') simp
qed

text \<open>The familiarity of a returned node is within 0 .. 5.\<close>

lemma scheduleReview_familiarity_range:
  "scheduleReview n r intervals thr now = Inr n' \<Longrightarrow>
     0 \<le> familiarity n' \<and> familiarity n' \<le> 5"
  by (simp add: scheduleReview_returns(1) clamp_def)

text \<open>
  On a non-empty interval table the ratings hard, good and easy leave the stage within the
  table, whatever the stage was before.
\<close>

lemma stage_in_range_unless_again:
  "intervals \<noteq> [] \<Longrightarrow> r \<noteq> Again \<Longrightarrow> scheduleReview n r intervals thr now = Inr n' \<Longrightarrow>
   0 \<le> srsStage n' \<and> srsStage n' \<le> int (length intervals) - 1"
  by (cases intervals) (simp_all add: scheduleReview_returns(2) clamp_def)

text \<open>
  The rating again keeps the stage at or above 0, and within the table when the stage
  before was at most the length of the table; it sets no upper bound of its own.
\<close>

lemma stage_after_again:
  "scheduleReview n Again intervals thr now = Inr n' \<Longrightarrow>
   0 \<le> srsStage n'
   \<and> (srsStage n \<le> int (length intervals) \<longrightarrow> intervals \<noteq> [] \<longrightarrow>
       srsStage n' \<le> int (length intervals) - 1)"
  by (cases intervals) (auto simp add: scheduleReview_returns(2))

lemma days_beyond_table: "intervalDays [1, 3, 7, 14] 9 = 14"
  by (simp add: intervalDays_def js_index_def js_or_def)

lemma days_at_stage_2: "intervalDays [1, 3, 7, 14] 2 = 7"
  by (simp add: intervalDays_def js_index_def js_or_def)

lemma days_at_stage_0: "intervalDays [1, 3, 7, 14] 0 = 1"
  by (simp add: intervalDays_def js_index_def js_or_def)


lemma sample_clock_in_range:
  "\<bar>Date_UTC 2024 0 1\<bar> \<le> maxTime"
  "\<bar>Date_UTC 2024 0 1 + msPerDay\<bar> \<le> maxTime"
  "\<bar>Date_UTC 2024 0 1 + 7 * msPerDay\<bar> \<le> maxTime"
  "\<bar>Date_UTC 2024 0 1 + 14 * msPerDay\<bar> \<le> maxTime"
  by code_simp+

lemma now_iso: "toISOString (Date_UTC 2024 0 1) = ''2024-01-01T00:00:00.000Z''"
  by code_simp

lemma plus1_iso: "toISOString (Date_UTC 2024 0 1 + msPerDay) = ''2024-01-02T00:00:00.000Z''"
  by code_simp

lemma plus7_iso: "toISOString (Date_UTC 2024 0 1 + 7 * msPerDay) = ''2024-01-08T00:00:00.000Z''"
  by code_simp

lemma plus14_iso: "toISOString (Date_UTC 2024 0 1 + 14 * msPerDay) = ''2024-01-15T00:00:00.000Z''"
  by code_simp

text \<open>
  C1. The claim: for every node, whatever its stage, every rating and every non-empty
  interval table, the stage after \<^verbatim>\<open>scheduleReview\<close> lies within \<open>0 .. length - 1\<close>. The
  branch of the rating again computes \<^verbatim>\<open>Math.max(0, node.srsStage - 1)\<close> and, unlike the
  three other branches, never compares with \<^verbatim>\<open>maxStage\<close>: a node at stage 10 reviewed with
  again on the table 1, 3, 7, 14 comes out at stage 9, beyond the last index 3, whenever
  the scheduler returns, and it returns at every review time that has its next review 14
  days later within the range of time values, as on 2024-01-01.
\<close>

theorem scheduleReview_again_beyond_table:
  "scheduleReview (nodeC\<lparr> srsStage := 10 \<rparr>) Again [1, 3, 7, 14] 4 now
     = (if \<bar>now\<bar> \<le> maxTime \<and> \<bar>now + 14 * msPerDay\<bar> \<le> maxTime
        then Inr (nodeC\<lparr> familiarity := 1, srsStage := 9,
                    lastReviewed := Some (toISOString now),
                    nextReview := Some (toISOString (now + 14 * msPerDay)),
                    status := InProgress \<rparr>)
        else Inl RangeError)
   \<and> scheduleReview (nodeC\<lparr> srsStage := 10 \<rparr>) Again [1, 3, 7, 14] 4 (Date_UTC 2024 0 1)
     = Inr (nodeC\<lparr> familiarity := 1, srsStage := 9,
               lastReviewed := Some ''2024-01-01T00:00:00.000Z'',
               nextReview := Some ''2024-01-15T00:00:00.000Z'',
               status := InProgress \<rparr>)
   \<and> \<not> 9 \<le> int (length [1, 3, 7, 14 :: int]) - 1"
proof -
  have general: "scheduleReview (nodeC\<lparr> srsStage := 10 \<rparr>) Again [1, 3, 7, 14] 4 t
     = (if \<bar>t\<bar> \<le> maxTime \<and> \<bar>t + 14 * msPerDay\<bar> \<le> maxTime
        then Inr (nodeC\<lparr> familiarity := 1, srsStage := 9,
                    lastReviewed := Some (toISOString t),
                    nextReview := Some (toISOString (t + 14 * msPerDay)),
                    status := InProgress \<rparr>)
        else Inl RangeError)" for t
    by (simp add: scheduleReview_eq days_beyond_table clamp_def nodeC_def)
  have "scheduleReview (nodeC\<lparr> srsStage := 10 \<rparr>) Again [1, 3, 7, 14] 4 (Date_UTC 2024 0 1)
     = Inr (nodeC\<lparr> familiarity := 1, srsStage := 9,
               lastReviewed := Some ''2024-01-01T00:00:00.000Z'',
               nextReview := Some ''2024-01-15T00:00:00.000Z'',
               status := InProgress \<rparr>)"
    by (simp add: general sample_clock_in_range now_iso plus14_iso)
  with general [of now] show ?thesis by simp
qed

text \<open>
  C3. A node with familiarity 2 at stage 1, reviewed at 2024-01-01T00:00:00Z on the table
  1, 3, 7, 14 with mastery threshold 4: the rating good gives familiarity 3, stage 2, the
  next review on 2024-01-08 and the status in-progress; the rating again gives familiarity
  1, stage 0, the next review on 2024-01-02 and the status in-progress. In both cases
  \<^verbatim>\<open>lastReviewed\<close> is the time of the review and every other field is kept.
\<close>

theorem scheduleReview_scenarios:
  "familiarity n = 2 \<Longrightarrow> srsStage n = 1 \<Longrightarrow>
   scheduleReview n Good [1, 3, 7, 14] 4 (Date_UTC 2024 0 1)
     = Inr (n\<lparr> familiarity := 3, srsStage := 2,
          lastReviewed := Some ''2024-01-01T00:00:00.000Z'',
          nextReview := Some ''2024-01-08T00:00:00.000Z'',
          status := InProgress \<rparr>)
   \<and> scheduleReview n Again [1, 3, 7, 14] 4 (Date_UTC 2024 0 1)
     = Inr (n\<lparr> familiarity := 1, srsStage := 0,
          lastReviewed := Some ''2024-01-01T00:00:00.000Z'',
          nextReview := Some ''2024-01-02T00:00:00.000Z'',
          status := InProgress \<rparr>)"
  by (simp add: scheduleReview_eq clamp_def days_at_stage_2 days_at_stage_0
      sample_clock_in_range now_iso plus7_iso plus1_iso)

theorem scheduleReview_scenarios_witness:
  "familiarity nodeC = 2 \<and> srsStage nodeC = 1
   \<and> scheduleReview nodeC Good [1, 3, 7, 14] 4 (Date_UTC 2024 0 1)
     = Inr (nodeC\<lparr> familiarity := 3, srsStage := 2,
          lastReviewed := Some ''2024-01-01T00:00:00.000Z'',
          nextReview := Some ''2024-01-08T00:00:00.000Z'',
          status := InProgress \<rparr>)
   \<and> scheduleReview nodeC Again [1, 3, 7, 14] 4 (Date_UTC 2024 0 1)
     = Inr (nodeC\<lparr> familiarity := 1, srsStage := 0,
          lastReviewed := Some ''2024-01-01T00:00:00.000Z'',
          nextReview := Some ''2024-01-02T00:00:00.000Z'',
          status := InProgress \<rparr>)"
  using scheduleReview_scenarios [of nodeC] by (simp add: nodeC_def)

text \<open>
  C4, as claimed: for every node, rating, interval table and threshold \<^verbatim>\<open>scheduleReview\<close>
  returns a node, with a status and both dates set. It does not on every interval table:
  reviewed on 2024-01-01 at the rating good on the table of the one interval 100000000,
  the next review would fall 100000000 days later, beyond the last time value, which is
  8640000000000000 ms after the epoch; \<^verbatim>\<open>setUTCDate\<close> makes the date invalid and
  \<^verbatim>\<open>toISOString\<close> throws \<^verbatim>\<open>RangeError\<close>, so no node is returned.
\<close>

theorem scheduleReview_huge_interval_throws:
  "\<bar>Date_UTC 2024 0 1\<bar> \<le> maxTime
   \<and> scheduleReview nodeC Good [100000000] 4 (Date_UTC 2024 0 1) = Inl RangeError"
  by code_simp

text \<open>
  C4, amended. When the time of the review and the time of the next review (the time of
  the review plus the days of the new stage) are time values, \<^verbatim>\<open>scheduleReview\<close> returns a
  node, for every node, whatever its status, every rating, interval table and threshold.
  The status of that node is mastered when its familiarity reaches the threshold and
  in-progress otherwise, so it depends on the new familiarity and the threshold alone;
  \<^verbatim>\<open>lastReviewed\<close> is the time of the review, \<^verbatim>\<open>nextReview\<close> is that time plus the days of
  the new stage, and both are set, also after the rating again. In every other case the
  scheduler throws, by \<open>scheduleReview_throws\<close>.
\<close>

theorem scheduleReview_status_and_dates:
  fixes n :: LearnNode and r :: rating and intervals :: "int list" and thr now :: int
  defines "stage \<equiv> (if r = Again then max 0 (srsStage n - 1)
                     else clamp (srsStage n + (if r = Hard then 0 else if r = Good then 1 else 2))
                            0 (int (length intervals) - 1))"
  assumes "\<bar>now\<bar> \<le> maxTime"
    and "\<bar>now + intervalDays intervals stage * msPerDay\<bar> \<le> maxTime"
  shows "\<exists>n'. scheduleReview n r intervals thr now = Inr n'
     \<and> status n' = (if familiarity n' \<ge> thr then Mastered else InProgress)
     \<and> familiarity n' = clamp (familiarity n + (if r = Again then - 1 else if r = Hard then 0
                                                  else if r = Good then 1 else 2)) 0 5
     \<and> srsStage n' = stage
     \<and> lastReviewed n' = Some (toISOString now)
     \<and> nextReview n' = Some (toISOString (now + intervalDays intervals (srsStage n') * msPerDay))
     \<and> truthy (lastReviewed n') \<and> truthy (nextReview n')"
  using assms by (simp add: scheduleReview_eq truthy_def toISOString_nonempty)

theorem scheduleReview_status_and_dates_witness:
  "\<bar>Date_UTC 2024 0 1\<bar> \<le> maxTime
   \<and> \<bar>Date_UTC 2024 0 1 + 7 * msPerDay\<bar> \<le> maxTime
   \<and> status nodeC = Paused
   \<and> (\<exists>n'. scheduleReview nodeC Good [1, 3, 7, 14] 4 (Date_UTC 2024 0 1) = Inr n'
        \<and> familiarity n' = 3 \<and> status n' = InProgress
        \<and> lastReviewed n' = Some ''2024-01-01T00:00:00.000Z''
        \<and> nextReview n' = Some ''2024-01-08T00:00:00.000Z'')"
proof -
  have stage: "(if Good = Again then max 0 (srsStage nodeC - 1)
                else clamp (srsStage nodeC + (if Good = Hard then 0 else if Good = Good then 1 else 2))
                       0 (int (length [1, 3, 7, 14 :: int]) - 1)) = 2"
    by (simp add: nodeC_def clamp_def)
  have next_ok: "\<bar>Date_UTC 2024 0 1 + intervalDays [1, 3, 7, 14]
      (if Good = Again then max 0 (srsStage nodeC - 1)
       else clamp (srsStage nodeC + (if Good = Hard then 0 else if Good = Good then 1 else 2))
              0 (int (length [1, 3, 7, 14 :: int]) - 1)) * msPerDay\<bar> \<le> maxTime"
    unfolding stage days_at_stage_2 by (rule sample_clock_in_range)
  from scheduleReview_status_and_dates [OF sample_clock_in_range(1) next_ok, of 4]
  obtain n' where n': "scheduleReview nodeC Good [1, 3, 7, 14] 4 (Date_UTC 2024 0 1) = Inr n'"
    "status n' = (if familiarity n' \<ge> 4 then Mastered else InProgress)"
    "familiarity n' = clamp (familiarity nodeC + (if Good = Again then - 1 else if Good = Hard then 0
                                                  else if Good = Good then 1 else 2)) 0 5"
    "srsStage n' = 2"
    "lastReviewed n' = Some (toISOString (Date_UTC 2024 0 1))"
    "nextReview n' = Some (toISOString (Date_UTC 2024 0 1
                       + intervalDays [1, 3, 7, 14] (srsStage n') * msPerDay))"
    unfolding stage by blast
  have fam: "familiarity n' = 3" using n'(3) by (simp add: nodeC_def clamp_def)
  have st: "status n' = InProgress" using n'(2) fam by simp
  have nr: "nextReview n' = Some ''2024-01-08T00:00:00.000Z''"
    using n'(6) n'(4) by (simp add: days_at_stage_2 plus7_iso)
  have lr: "lastReviewed n' = Some ''2024-01-01T00:00:00.000Z''"
    using n'(5) by (simp add: now_iso)
  have "status nodeC = Paused" by (simp add: nodeC_def)
  with n'(1) fam st lr nr sample_clock_in_range(1) sample_clock_in_range(3)
  show ?thesis by blast
qed



section \<open>Properties of node creation\<close>

lemma slugify_test_1: "slugify ''Nix Derivations'' = ''nix-derivations''"
  by code_simp

lemma slugify_test_2: "slugify ''  German: Akkusativ!  '' = ''german-akkusativ''"
  by code_simp

text \<open>
  Without a status in the input the front matter is written with the status available,
  whatever the prerequisites are; familiarity and stage are 0 and the review dates are
  \<^verbatim>\<open>null\<close>.
\<close>

lemma buildNodeContents_defaults:
  "\<not> truthy (in_status input) \<Longrightarrow>
     fm_status (fst (buildNodeContents input now)) = ''available''"
  "fm_familiarity (fst (buildNodeContents input now)) = 0"
  "fm_srs_stage (fst (buildNodeContents input now)) = 0"
  "fm_last_reviewed (fst (buildNodeContents input now)) = None"
  "fm_next_review (fst (buildNodeContents input now)) = None"
  "fm_prerequisites (fst (buildNodeContents input now)) = listOr (in_prerequisites input)"
  by (auto simp add: buildNodeContents_def Let_def strOr_def truthy_def
      split: option.splits)

text \<open>
  A front matter without a status is loaded as locked when it has a prerequisite and
  as available otherwise; a status that is written wins over the prerequisites.
\<close>

lemma loadedStatus_without_status:
  "loadedStatus None prereqs = (if prereqs \<noteq> [] then Locked else Available)"
  by (simp add: loadedStatus_def normalizeStatus_def strOr_def truthy_def)

lemma loadedStatus_available: "loadedStatus (Some ''available'') prereqs = Available"
  by (simp add: loadedStatus_def normalizeStatus_def strOr_def truthy_def)

text \<open>
  C6. The claim: a new node is written with the status locked when it declares a
  prerequisite and no status is supplied. \<^verbatim>\<open>buildNodeContents\<close> writes
  \<^verbatim>\<open>input.status || "available"\<close> and never looks at the prerequisites: the input
  \<^term>\<open>inputB\<close>, which declares one prerequisite and no status, is written with the status
  available, and \<^verbatim>\<open>loadNodes\<close> reads that file back as available, since its default for
  nodes with prerequisites applies only to a file without a status.
\<close>

theorem buildNodeContents_with_prerequisite_available:
  "in_status inputB = None
   \<and> fm_prerequisites (fst (buildNodeContents inputB now)) = [''nix/store-basics'']
   \<and> fm_status (fst (buildNodeContents inputB now)) = ''available''
   \<and> loadedStatus (Some (fm_status (fst (buildNodeContents inputB now))))
        (fm_prerequisites (fst (buildNodeContents inputB now))) = Available
   \<and> fm_familiarity (fst (buildNodeContents inputB now)) = 0
   \<and> fm_srs_stage (fst (buildNodeContents inputB now)) = 0
   \<and> fm_last_reviewed (fst (buildNodeContents inputB now)) = None
   \<and> fm_next_review (fst (buildNodeContents inputB now)) = None"
  by (simp add: buildNodeContents_def inputB_def Let_def strOr_def listOr_def
      loadedStatus_def normalizeStatus_def truthy_def)

section \<open>Properties of sorting\<close>

lemma insert_sorted_not_Nil [simp]: "insert_sorted c x ys \<noteq> []"
  by (cases ys) simp_all

lemma js_sort_Nil_iff [simp]: "js_sort c xs = [] \<longleftrightarrow> xs = []"
  by (cases xs) simp_all

lemma set_insert_sorted: "set (insert_sorted c x ys) = insert x (set ys)"
  by (induction ys) auto

lemma set_js_sort [simp]: "set (js_sort c xs) = set xs"
  by (induction xs) (simp_all add: set_insert_sorted)

lemma hd_insert_sorted:
  "hd (insert_sorted c x ys) = (if ys = [] \<or> SortCompare c x (hd ys) \<le> 0 then x else hd ys)"
  by (cases ys) simp_all

text \<open>An array in which every element compares at or below its successor is left as it is.\<close>

lemma js_sort_run:
  "successively (\<lambda>x y. SortCompare c x y \<le> 0) xs \<Longrightarrow> js_sort c xs = xs"
  by (induction xs rule: induct_list012) auto

lemma hd_js_sort_in_set: "xs \<noteq> [] \<Longrightarrow> hd (js_sort c xs) \<in> set xs"
  using hd_in_set [of "js_sort c xs"] by simp

lemma first_least_single: "first_least le [x] x"
  unfolding first_least_def by (rule exI [of _ "[]"], rule exI [of _ "[]"]) simp

lemma first_least_keep:
  assumes "first_least le xs m" "\<not> le x m"
  shows "first_least le (x # xs) m"
proof -
  from assms(1) obtain pre post where "xs = pre @ m # post"
    "\<forall>p\<in>set pre. \<not> le p m" "\<forall>p\<in>set post. le m p"
    unfolding first_least_def by blast
  with assms(2) have "x # xs = (x # pre) @ m # post
    \<and> (\<forall>p\<in>set (x # pre). \<not> le p m) \<and> (\<forall>p\<in>set post. le m p)" by simp
  then show ?thesis unfolding first_least_def by blast
qed

lemma first_least_all:
  assumes "first_least le xs m" "p \<in> set xs"
    and total: "le m p \<or> le p m"
    and refl: "le m m"
  shows "le m p"
proof -
  from assms(1) obtain pre post where xs: "xs = pre @ m # post"
    and pre: "\<forall>q\<in>set pre. \<not> le q m" and post: "\<forall>q\<in>set post. le m q"
    unfolding first_least_def by blast
  from assms(2) xs have "p \<in> set pre \<or> p = m \<or> p \<in> set post" by auto
  then show ?thesis using pre post total refl by blast
qed

lemma first_least_new:
  assumes "\<forall>p\<in>set xs. le x p"
  shows "first_least le (x # xs) x"
proof -
  have "x # xs = [] @ x # xs \<and> (\<forall>p\<in>set []. \<not> le p x) \<and> (\<forall>p\<in>set xs. le x p)"
    using assms by simp
  then show ?thesis unfolding first_least_def by blast
qed

text \<open>
  The head of the sorted array is the first least element of the array, when the
  comparator is total and transitive on its elements.
\<close>

lemma hd_js_sort_first_least:
  assumes "xs \<noteq> []"
    and total: "\<And>a b. a \<in> set xs \<Longrightarrow> b \<in> set xs \<Longrightarrow>
                  SortCompare c a b \<le> 0 \<or> SortCompare c b a \<le> 0"
    and trans: "\<And>a b d. a \<in> set xs \<Longrightarrow> b \<in> set xs \<Longrightarrow> d \<in> set xs \<Longrightarrow>
                  SortCompare c a b \<le> 0 \<Longrightarrow> SortCompare c b d \<le> 0 \<Longrightarrow> SortCompare c a d \<le> 0"
  shows "first_least (\<lambda>a b. SortCompare c a b \<le> 0) xs (hd (js_sort c xs))"
  using assms
proof (induction xs)
  case Nil
  from Nil.prems(1) show ?case by simp
next
  case (Cons x xs)
  let ?le = "\<lambda>a b. SortCompare c a b \<le> 0"
  show ?case
  proof (cases "xs = []")
    case True
    then show ?thesis by (simp add: first_least_single)
  next
    case False
    define m where "m = hd (js_sort c xs)"
    have m_in: "m \<in> set xs" unfolding m_def using False by (rule hd_js_sort_in_set)
    have tot: "?le a b \<or> ?le b a" if "a \<in> set (x # xs)" "b \<in> set (x # xs)" for a b
      using Cons.prems(2) [of a b] that by blast
    have tr: "?le a d" if "a \<in> set (x # xs)" "b \<in> set (x # xs)" "d \<in> set (x # xs)"
      "?le a b" "?le b d" for a b d
      using Cons.prems(3) [of a b d] that by blast
    have IH: "first_least ?le xs m"
      unfolding m_def
    proof (rule Cons.IH [OF False])
      fix a b assume "a \<in> set xs" "b \<in> set xs"
      then show "?le a b \<or> ?le b a" using tot [of a b] by simp
    next
      fix a b d assume "a \<in> set xs" "b \<in> set xs" "d \<in> set xs" "?le a b" "?le b d"
      then show "?le a d" using tr [of a b d] by simp
    qed
    have hd_eq: "hd (js_sort c (x # xs)) = (if ?le x m then x else m)"
      using False by (simp add: hd_insert_sorted m_def)
    show ?thesis
    proof (cases "?le x m")
      case True
      have "?le x p" if "p \<in> set xs" for p
      proof -
        have "?le m p"
        proof (rule first_least_all [OF IH that])
          show "?le m p \<or> ?le p m" using tot [of m p] m_in that by simp
          show "?le m m" using tot [of m m] m_in by simp
        qed
        then show ?thesis using tr [of x m p] True m_in that by simp
      qed
      then have "first_least ?le (x # xs) x" by (intro first_least_new) blast
      then show ?thesis using True hd_eq by simp
    next
      case False
      have "first_least ?le (x # xs) m" using IH False by (rule first_least_keep)
      then show ?thesis using False hd_eq by simp
    qed
  qed
qed

text \<open>A split of a filtered list is the image of a split of the list.\<close>

lemma filter_eq_appendD:
  "filter P xs = ys @ zs \<Longrightarrow> \<exists>us vs. xs = us @ vs \<and> filter P us = ys \<and> filter P vs = zs"
proof (induction ys arbitrary: xs)
  case Nil
  then have "xs = [] @ xs \<and> filter P [] = [] \<and> filter P xs = zs" by simp
  then show ?case by blast
next
  case (Cons y ys)
  then have "filter P xs = y # (ys @ zs)" by simp
  then obtain us0 vs0 where xs: "xs = us0 @ y # vs0" and no: "\<forall>u\<in>set us0. \<not> P u"
    and py: "P y" and rest: "ys @ zs = filter P vs0"
    unfolding filter_eq_Cons_iff by blast
  from Cons.IH [of vs0] rest obtain us1 vs1 where
    "vs0 = us1 @ vs1" "filter P us1 = ys" "filter P vs1 = zs" by auto
  then have "xs = (us0 @ y # us1) @ vs1 \<and> filter P (us0 @ y # us1) = y # ys
      \<and> filter P vs1 = zs"
    using xs no py by simp
  then show ?case by blast
qed

lemma filter_eq_splitD:
  assumes "filter P xs = pre @ s # post"
  shows "\<exists>us vs. xs = us @ s # vs \<and> filter P us = pre \<and> filter P vs = post \<and> P s"
proof -
  from filter_eq_appendD [OF assms] obtain us vs where
    xs: "xs = us @ vs" and us: "filter P us = pre" and vs: "filter P vs = s # post" by blast
  from vs obtain us2 vs2 where vs': "vs = us2 @ s # vs2" and no: "\<forall>u\<in>set us2. \<not> P u"
    and ps: "P s" and post: "post = filter P vs2"
    unfolding filter_eq_Cons_iff by blast
  have "xs = (us @ us2) @ s # vs2 \<and> filter P (us @ us2) = pre \<and> filter P vs2 = post \<and> P s"
    using xs us vs' no ps post by simp
  then show ?thesis by blast
qed

section \<open>Properties of the selector\<close>

text \<open>The first least element of a filtered list, seen in the list.\<close>

lemma first_least_filter:
  assumes "first_least le (filter P xs) s"
  shows "\<exists>pre post. xs = pre @ s # post \<and> P s
           \<and> (\<forall>p\<in>set pre. P p \<longrightarrow> \<not> le p s) \<and> (\<forall>p\<in>set post. P p \<longrightarrow> le s p)"
proof -
  from assms obtain pre post where f: "filter P xs = pre @ s # post"
    and pre: "\<forall>p\<in>set pre. \<not> le p s" and post: "\<forall>p\<in>set post. le s p"
    unfolding first_least_def by blast
  from filter_eq_splitD [OF f] obtain us vs where xs: "xs = us @ s # vs"
    and us: "filter P us = pre" and vs: "filter P vs = post" and ps: "P s" by blast
  have "\<forall>p\<in>set us. P p \<longrightarrow> \<not> le p s"
  proof (intro ballI impI)
    fix p assume "p \<in> set us" "P p"
    then have "p \<in> set (filter P us)" by simp
    with us pre show "\<not> le p s" by simp
  qed
  moreover have "\<forall>p\<in>set vs. P p \<longrightarrow> le s p"
  proof (intro ballI impI)
    fix p assume "p \<in> set vs" "P p"
    then have "p \<in> set (filter P vs)" by simp
    with vs post show "le s p" by simp
  qed
  ultimately show ?thesis using xs ps by blast
qed

text \<open>
  The time of an optional timestamp: 0 for a missing or empty field, what the string
  parses to otherwise, \<^verbatim>\<open>NaN\<close> included.
\<close>

lemma timeOrZero_missing: "timeOrZero parse None = Some 0"
  by (simp add: timeOrZero_def)

lemma timeOrZero_empty: "timeOrZero parse (Some []) = Some 0"
  by (simp add: timeOrZero_def)

lemma timeOrZero_string: "str \<noteq> [] \<Longrightarrow> timeOrZero parse (Some str) = parse str"
  by (simp add: timeOrZero_def)

lemma isDue_iff:
  "isDue parse now r \<longleftrightarrow>
     (\<exists>s t. nextReview (node r) = Some s \<and> s \<noteq> [] \<and> parse s = Some t \<and> t \<le> now)"
  by (auto simp add: isDue_def split: option.splits)

lemma isDue_time:
  "isDue parse now r \<Longrightarrow> \<exists>t. timeOrZero parse (nextReview (node r)) = Some t \<and> t \<le> now"
  by (auto simp add: isDue_iff timeOrZero_def)

lemma SortCompare_compareDue:
  "timeOrZero parse (nextReview (node a)) = Some ta \<Longrightarrow>
   timeOrZero parse (nextReview (node b)) = Some tb \<Longrightarrow>
   SortCompare (compareDue parse) a b = ta - tb"
  by (simp add: SortCompare_def compareDue_def js_minus_def)

lemma SortCompare_compareAvailable:
  "timeOrZero parse (created (node a)) = Some ca \<Longrightarrow>
   timeOrZero parse (created (node b)) = Some cb \<Longrightarrow>
   SortCompare (compareAvailable parse) a b \<le> 0 \<longleftrightarrow>
     familiarity (node a) < familiarity (node b)
     \<or> (familiarity (node a) = familiarity (node b) \<and> ca \<le> cb)"
  by (auto simp add: SortCompare_def compareAvailable_def js_minus_def Let_def)

lemma pick_due:
  assumes "filter (\<lambda>r. status (node r) \<noteq> Locked \<and> isDue parse now r) records \<noteq> []"
  shows "pickNextNode parse records now =
     \<lparr> result_node = Some (node (hd (js_sort (compareDue parse)
          (filter (\<lambda>r. status (node r) \<noteq> Locked \<and> isDue parse now r) records)))),
       reason = Some ''due-review'' \<rparr>"
  using assms by (simp add: pickNextNode_def Let_def)

lemma pick_available:
  assumes "filter (\<lambda>r. status (node r) \<noteq> Locked \<and> isDue parse now r) records = []"
    and "filter (\<lambda>r. status (node r) = Available) records \<noteq> []"
  shows "pickNextNode parse records now =
     \<lparr> result_node = Some (node (hd (js_sort (compareAvailable parse)
          (filter (\<lambda>r. status (node r) = Available) records)))),
       reason = Some ''new-available'' \<rparr>"
proof -
  have "filter (\<lambda>r. status (node r) \<noteq> Locked \<and> status (node r) = Available) records
      = filter (\<lambda>r. status (node r) = Available) records"
    by (rule filter_cong) auto
  with assms show ?thesis by (simp add: pickNextNode_def Let_def)
qed

lemma pick_inProgress:
  assumes "filter (\<lambda>r. status (node r) \<noteq> Locked \<and> isDue parse now r) records = []"
    and "filter (\<lambda>r. status (node r) = Available) records = []"
    and "filter (\<lambda>r. status (node r) = InProgress) records \<noteq> []"
  shows "pickNextNode parse records now =
     \<lparr> result_node = Some (node (hd (js_sort compareFamiliarity
          (filter (\<lambda>r. status (node r) = InProgress) records)))),
       reason = Some ''continue'' \<rparr>"
proof -
  have "filter (\<lambda>r. status (node r) \<noteq> Locked \<and> status (node r) = Available) records
      = filter (\<lambda>r. status (node r) = Available) records"
    by (rule filter_cong) auto
  moreover have "filter (\<lambda>r. status (node r) \<noteq> Locked \<and> status (node r) = InProgress) records
      = filter (\<lambda>r. status (node r) = InProgress) records"
    by (rule filter_cong) auto
  ultimately show ?thesis using assms by (simp add: pickNextNode_def Let_def)
qed

lemma pick_none:
  assumes "filter (\<lambda>r. status (node r) \<noteq> Locked \<and> isDue parse now r) records = []"
    and "filter (\<lambda>r. status (node r) = Available) records = []"
    and "filter (\<lambda>r. status (node r) = InProgress) records = []"
  shows "pickNextNode parse records now = \<lparr> result_node = None, reason = None \<rparr>"
proof -
  have "filter (\<lambda>r. status (node r) \<noteq> Locked \<and> status (node r) = Available) records
      = filter (\<lambda>r. status (node r) = Available) records"
    by (rule filter_cong) auto
  moreover have "filter (\<lambda>r. status (node r) \<noteq> Locked \<and> status (node r) = InProgress) records
      = filter (\<lambda>r. status (node r) = InProgress) records"
    by (rule filter_cong) auto
  ultimately show ?thesis using assms by (simp add: pickNextNode_def Let_def)
qed

text \<open>
  C5. Whenever a record that is not locked has a \<^verbatim>\<open>nextReview\<close> at or before \<open>now\<close>
  (\<^term>\<open>isDue\<close>, see \<open>isDue_iff\<close>), the selector answers with the reason \<^verbatim>\<open>due-review\<close>,
  whatever available nodes there are, and with the node of a due record \<open>s\<close> whose review
  time is the earliest: every due record before \<open>s\<close> in the input has a strictly later
  time, every due record after it a time that is not earlier.
\<close>

theorem pickNextNode_due_review:
  assumes "\<exists>r\<in>set records. status (node r) \<noteq> Locked \<and> isDue parse now r"
  shows "\<exists>pre s post ts. records = pre @ s # post
     \<and> pickNextNode parse records now
         = \<lparr> result_node = Some (node s), reason = Some ''due-review'' \<rparr>
     \<and> status (node s) \<noteq> Locked \<and> isDue parse now s
     \<and> timeOrZero parse (nextReview (node s)) = Some ts
     \<and> (\<forall>p\<in>set pre. status (node p) \<noteq> Locked \<and> isDue parse now p \<longrightarrow>
           (\<exists>tp. timeOrZero parse (nextReview (node p)) = Some tp \<and> ts < tp))
     \<and> (\<forall>p\<in>set post. status (node p) \<noteq> Locked \<and> isDue parse now p \<longrightarrow>
           (\<exists>tp. timeOrZero parse (nextReview (node p)) = Some tp \<and> ts \<le> tp))"
proof -
  let ?P = "\<lambda>r. status (node r) \<noteq> Locked \<and> isDue parse now r"
  let ?due = "filter ?P records"
  let ?c = "compareDue parse"
  let ?le = "\<lambda>a b. SortCompare ?c a b \<le> 0"
  define s where "s = hd (js_sort ?c ?due)"
  have time: "\<exists>t. timeOrZero parse (nextReview (node a)) = Some t" if "?P a" for a
    using that isDue_time [of parse now a] by blast
  have le_iff: "?le a b \<longleftrightarrow> ta \<le> tb"
    if "timeOrZero parse (nextReview (node a)) = Some ta"
       "timeOrZero parse (nextReview (node b)) = Some tb" for a b ta tb
    using SortCompare_compareDue [OF that] by simp
  have nonempty: "?due \<noteq> []" using assms by (simp add: filter_empty_conv)
  have "first_least ?le ?due s"
    unfolding s_def
  proof (rule hd_js_sort_first_least [OF nonempty])
    fix a b assume "a \<in> set ?due" "b \<in> set ?due"
    then obtain ta tb where t: "timeOrZero parse (nextReview (node a)) = Some ta"
      "timeOrZero parse (nextReview (node b)) = Some tb"
      using time [of a] time [of b] by auto
    show "?le a b \<or> ?le b a" using le_iff [OF t] le_iff [OF t(2) t(1)] by linarith
  next
    fix a b d assume "a \<in> set ?due" "b \<in> set ?due" "d \<in> set ?due" and ab: "?le a b" and bd: "?le b d"
    then obtain ta tb td where t: "timeOrZero parse (nextReview (node a)) = Some ta"
      "timeOrZero parse (nextReview (node b)) = Some tb"
      "timeOrZero parse (nextReview (node d)) = Some td"
      using time [of a] time [of b] time [of d] by auto
    show "?le a d"
      using le_iff [OF t(1) t(2)] le_iff [OF t(2) t(3)] le_iff [OF t(1) t(3)] ab bd
      by linarith
  qed
  from first_least_filter [OF this] obtain pre post where split: "records = pre @ s # post"
    and ps: "?P s"
    and before: "\<forall>p\<in>set pre. ?P p \<longrightarrow> \<not> ?le p s"
    and after: "\<forall>p\<in>set post. ?P p \<longrightarrow> ?le s p"
    by blast
  from time [OF ps] obtain ts where ts: "timeOrZero parse (nextReview (node s)) = Some ts"
    by blast
  have res: "pickNextNode parse records now
      = \<lparr> result_node = Some (node s), reason = Some ''due-review'' \<rparr>"
    unfolding s_def by (rule pick_due [OF nonempty])
  have b': "\<forall>p\<in>set pre. ?P p \<longrightarrow>
      (\<exists>tp. timeOrZero parse (nextReview (node p)) = Some tp \<and> ts < tp)"
  proof (intro ballI impI)
    fix p assume p: "p \<in> set pre" "?P p"
    from time [OF p(2)] obtain tp where tp: "timeOrZero parse (nextReview (node p)) = Some tp"
      by blast
    from before p have "\<not> ?le p s" by blast
    with le_iff [OF tp ts] have "ts < tp" by simp
    with tp show "\<exists>tp. timeOrZero parse (nextReview (node p)) = Some tp \<and> ts < tp" by blast
  qed
  have a': "\<forall>p\<in>set post. ?P p \<longrightarrow>
      (\<exists>tp. timeOrZero parse (nextReview (node p)) = Some tp \<and> ts \<le> tp)"
  proof (intro ballI impI)
    fix p assume p: "p \<in> set post" "?P p"
    from time [OF p(2)] obtain tp where tp: "timeOrZero parse (nextReview (node p)) = Some tp"
      by blast
    from after p have "?le s p" by blast
    with le_iff [OF ts tp] have "ts \<le> tp" by simp
    with tp show "\<exists>tp. timeOrZero parse (nextReview (node p)) = Some tp \<and> ts \<le> tp" by blast
  qed
  from split res ps ts b' a' show ?thesis by blast
qed

lemma recordsDue_has_due:
  "\<exists>r\<in>set recordsDue. status (node r) \<noteq> Locked \<and> isDue parseSample (Date_UTC 2024 0 1) r"
  by code_simp

lemma recordsDue_pick:
  "pickNextNode parseSample recordsDue (Date_UTC 2024 0 1)
     = \<lparr> result_node = Some nodeG, reason = Some ''due-review'' \<rparr>"
  by code_simp

theorem pickNextNode_due_review_witness:
  "(\<exists>r\<in>set recordsDue. status (node r) \<noteq> Locked \<and> isDue parseSample (Date_UTC 2024 0 1) r)
   \<and> pickNextNode parseSample recordsDue (Date_UTC 2024 0 1)
       = \<lparr> result_node = Some nodeG, reason = Some ''due-review'' \<rparr>
   \<and> (\<exists>pre s post ts. recordsDue = pre @ s # post
     \<and> pickNextNode parseSample recordsDue (Date_UTC 2024 0 1)
         = \<lparr> result_node = Some (node s), reason = Some ''due-review'' \<rparr>
     \<and> status (node s) \<noteq> Locked \<and> isDue parseSample (Date_UTC 2024 0 1) s
     \<and> timeOrZero parseSample (nextReview (node s)) = Some ts
     \<and> (\<forall>p\<in>set pre. status (node p) \<noteq> Locked \<and> isDue parseSample (Date_UTC 2024 0 1) p \<longrightarrow>
           (\<exists>tp. timeOrZero parseSample (nextReview (node p)) = Some tp \<and> ts < tp))
     \<and> (\<forall>p\<in>set post. status (node p) \<noteq> Locked \<and> isDue parseSample (Date_UTC 2024 0 1) p \<longrightarrow>
           (\<exists>tp. timeOrZero parseSample (nextReview (node p)) = Some tp \<and> ts \<le> tp)))"
  using recordsDue_has_due recordsDue_pick
    pickNextNode_due_review [OF recordsDue_has_due]
  by blast

text \<open>
  The available tier under a comparator that is consistent: when no record that is not
  locked is due, some record is available and the creation time of every available record
  is a number, the selector answers with the first available record that no available
  record precedes in the order of familiarity, then creation time.
\<close>

lemma pick_available_first_least:
  assumes nodue: "\<forall>r\<in>set records. status (node r) \<noteq> Locked \<longrightarrow> \<not> isDue parse now r"
    and avail: "\<exists>r\<in>set records. status (node r) = Available"
    and dates: "\<forall>r\<in>set records. status (node r) = Available \<longrightarrow>
                  timeOrZero parse (created (node r)) \<noteq> None"
  shows "\<exists>pre s post cs. records = pre @ s # post
     \<and> pickNextNode parse records now
         = \<lparr> result_node = Some (node s), reason = Some ''new-available'' \<rparr>
     \<and> status (node s) = Available
     \<and> timeOrZero parse (created (node s)) = Some cs
     \<and> (\<forall>p\<in>set pre. status (node p) = Available \<longrightarrow>
           familiarity (node s) < familiarity (node p)
           \<or> (familiarity (node s) = familiarity (node p)
               \<and> (\<exists>cp. timeOrZero parse (created (node p)) = Some cp \<and> cs < cp)))
     \<and> (\<forall>p\<in>set post. status (node p) = Available \<longrightarrow>
           familiarity (node s) < familiarity (node p)
           \<or> (familiarity (node s) = familiarity (node p)
               \<and> (\<exists>cp. timeOrZero parse (created (node p)) = Some cp \<and> cs \<le> cp)))"
proof -
  let ?P = "\<lambda>r. status (node r) = Available"
  let ?av = "filter ?P records"
  let ?c = "compareAvailable parse"
  let ?le = "\<lambda>a b. SortCompare ?c a b \<le> 0"
  define s where "s = hd (js_sort ?c ?av)"
  have time: "\<exists>t. timeOrZero parse (created (node a)) = Some t"
    if "a \<in> set records" "?P a" for a
    using that dates by auto
  have le_iff: "?le a b \<longleftrightarrow> familiarity (node a) < familiarity (node b)
        \<or> (familiarity (node a) = familiarity (node b) \<and> ca \<le> cb)"
    if "timeOrZero parse (created (node a)) = Some ca"
       "timeOrZero parse (created (node b)) = Some cb" for a b ca cb
    using SortCompare_compareAvailable [OF that] .
  have nodue': "filter (\<lambda>r. status (node r) \<noteq> Locked \<and> isDue parse now r) records = []"
    using nodue by (auto simp add: filter_empty_conv)
  have nonempty: "?av \<noteq> []" using avail by (simp add: filter_empty_conv)
  have "first_least ?le ?av s"
    unfolding s_def
  proof (rule hd_js_sort_first_least [OF nonempty])
    fix a b assume "a \<in> set ?av" "b \<in> set ?av"
    then obtain ca cb where t: "timeOrZero parse (created (node a)) = Some ca"
      "timeOrZero parse (created (node b)) = Some cb"
      using time [of a] time [of b] by auto
    show "?le a b \<or> ?le b a" using le_iff [OF t] le_iff [OF t(2) t(1)] by linarith
  next
    fix a b d assume "a \<in> set ?av" "b \<in> set ?av" "d \<in> set ?av" and ab: "?le a b" and bd: "?le b d"
    then obtain ca cb cd where t: "timeOrZero parse (created (node a)) = Some ca"
      "timeOrZero parse (created (node b)) = Some cb"
      "timeOrZero parse (created (node d)) = Some cd"
      using time [of a] time [of b] time [of d] by auto
    show "?le a d"
      using le_iff [OF t(1) t(2)] le_iff [OF t(2) t(3)] le_iff [OF t(1) t(3)] ab bd
      by linarith
  qed
  from first_least_filter [OF this] obtain pre post where split: "records = pre @ s # post"
    and ps: "?P s"
    and before: "\<forall>p\<in>set pre. ?P p \<longrightarrow> \<not> ?le p s"
    and after: "\<forall>p\<in>set post. ?P p \<longrightarrow> ?le s p"
    by blast
  have s_in: "s \<in> set records" using split by simp
  from time [OF s_in ps] obtain cs where cs: "timeOrZero parse (created (node s)) = Some cs"
    by blast
  have res: "pickNextNode parse records now
      = \<lparr> result_node = Some (node s), reason = Some ''new-available'' \<rparr>"
    unfolding s_def by (rule pick_available [OF nodue' nonempty])
  have b': "\<forall>p\<in>set pre. ?P p \<longrightarrow>
           familiarity (node s) < familiarity (node p)
           \<or> (familiarity (node s) = familiarity (node p)
               \<and> (\<exists>cp. timeOrZero parse (created (node p)) = Some cp \<and> cs < cp))"
  proof (intro ballI impI)
    fix p assume p: "p \<in> set pre" "?P p"
    then have "p \<in> set records" using split by simp
    from time [OF this p(2)] obtain cp where cp: "timeOrZero parse (created (node p)) = Some cp"
      by blast
    from before p have "\<not> ?le p s" by blast
    with le_iff [OF cp cs] have "familiarity (node s) < familiarity (node p)
        \<or> (familiarity (node s) = familiarity (node p) \<and> cs < cp)" by linarith
    with cp show "familiarity (node s) < familiarity (node p)
           \<or> (familiarity (node s) = familiarity (node p)
               \<and> (\<exists>cp. timeOrZero parse (created (node p)) = Some cp \<and> cs < cp))" by blast
  qed
  have a': "\<forall>p\<in>set post. ?P p \<longrightarrow>
           familiarity (node s) < familiarity (node p)
           \<or> (familiarity (node s) = familiarity (node p)
               \<and> (\<exists>cp. timeOrZero parse (created (node p)) = Some cp \<and> cs \<le> cp))"
  proof (intro ballI impI)
    fix p assume p: "p \<in> set post" "?P p"
    then have "p \<in> set records" using split by simp
    from time [OF this p(2)] obtain cp where cp: "timeOrZero parse (created (node p)) = Some cp"
      by blast
    from after p have "?le s p" by blast
    with le_iff [OF cs cp] have "familiarity (node s) < familiarity (node p)
        \<or> (familiarity (node s) = familiarity (node p) \<and> cs \<le> cp)" by linarith
    with cp show "familiarity (node s) < familiarity (node p)
           \<or> (familiarity (node s) = familiarity (node p)
               \<and> (\<exists>cp. timeOrZero parse (created (node p)) = Some cp \<and> cs \<le> cp))" by blast
  qed
  from split res ps cs b' a' show ?thesis by blast
qed

text \<open>
  C7, as claimed: for every collection with no due review and an available node, the
  selector returns the available node of lowest familiarity, ties broken by the earliest
  \<^verbatim>\<open>created\<close>. The collection \<open>p/x\<close>, \<open>p/y\<close>, \<open>p/z\<close> has three available nodes of familiarity
  0 and no review date; \<open>p/x\<close> was created on 2023-12-30, \<open>p/z\<close> on 2023-01-01, and the
  \<^verbatim>\<open>created\<close> of \<open>p/y\<close> is the string \<^verbatim>\<open>not a date\<close>, of time \<^verbatim>\<open>NaN\<close>. The comparator returns
  \<^verbatim>\<open>NaN\<close> whenever \<open>p/y\<close> is one of its arguments, which the sort reads as 0: \<open>p/y\<close> against
  \<open>p/x\<close> and \<open>p/z\<close> against \<open>p/y\<close> both give 0, the array counts as one run in order, and
  the selector returns \<open>p/x\<close>, although \<open>p/z\<close> is available with the same familiarity and
  was created earlier.
\<close>

theorem pickNextNode_created_not_a_date:
  "filter (isDue parseSample (Date_UTC 2024 0 1))
     (filter (\<lambda>r. status (node r) \<noteq> Locked) recordsXYZ) = []
   \<and> map (\<lambda>r. node_id (node r)) recordsXYZ = [''p/x'', ''p/y'', ''p/z'']
   \<and> map (\<lambda>r. status (node r)) recordsXYZ = [Available, Available, Available]
   \<and> map (\<lambda>r. familiarity (node r)) recordsXYZ = [0, 0, 0]
   \<and> map (\<lambda>r. created (node r)) recordsXYZ
       = [Some ''2023-12-30T00:00:00.000Z'', Some ''not a date'',
          Some ''2023-01-01T00:00:00.000Z'']
   \<and> parseSample ''2023-12-30T00:00:00.000Z'' = Some (Date_UTC 2023 11 30)
   \<and> parseSample ''not a date'' = None
   \<and> parseSample ''2023-01-01T00:00:00.000Z'' = Some (Date_UTC 2023 0 1)
   \<and> Date_UTC 2023 0 1 < Date_UTC 2023 11 30
   \<and> SortCompare (compareAvailable parseSample) (sampleRecord nodeY) (sampleRecord nodeX) = 0
   \<and> SortCompare (compareAvailable parseSample) (sampleRecord nodeZ) (sampleRecord nodeY) = 0
   \<and> pickNextNode parseSample recordsXYZ (Date_UTC 2024 0 1)
       = \<lparr> result_node = Some nodeX, reason = Some ''new-available'' \<rparr>"
  by code_simp

text \<open>
  C7, amended. When no record that is not locked is due, some record is available and the
  \<^verbatim>\<open>created\<close> of every available record is missing or parses as a date, the selector
  answers with the reason \<^verbatim>\<open>new-available\<close> and the node of an available record \<open>s\<close> of
  least familiarity and, among those, of earliest creation time, a missing or empty
  \<^verbatim>\<open>created\<close> counting as time 0: every available record before \<open>s\<close> in the input is
  strictly greater in that order, every available record after it is not smaller. Records
  in progress play no part, whatever their familiarity.
\<close>

theorem pickNextNode_new_available:
  fixes parse :: "string \<Rightarrow> int option" and records :: "'raw NodeRecord list" and now :: int
    and createdTime :: "'raw NodeRecord \<Rightarrow> int option"
  defines ct: "createdTime \<equiv> \<lambda>r. (case created (node r) of None \<Rightarrow> Some 0
                                    | Some str \<Rightarrow> if str = [] then Some 0 else parse str)"
  assumes nodue: "\<forall>r\<in>set records. status (node r) \<noteq> Locked \<longrightarrow> \<not> isDue parse now r"
    and avail: "\<exists>r\<in>set records. status (node r) = Available"
    and dates: "\<forall>r\<in>set records. status (node r) = Available \<longrightarrow> createdTime r \<noteq> None"
  shows "\<exists>pre s post cs. records = pre @ s # post
     \<and> pickNextNode parse records now
         = \<lparr> result_node = Some (node s), reason = Some ''new-available'' \<rparr>
     \<and> status (node s) = Available
     \<and> createdTime s = Some cs
     \<and> (\<forall>p\<in>set pre. status (node p) = Available \<longrightarrow>
           familiarity (node s) < familiarity (node p)
           \<or> (familiarity (node s) = familiarity (node p)
               \<and> (\<exists>cp. createdTime p = Some cp \<and> cs < cp)))
     \<and> (\<forall>p\<in>set post. status (node p) = Available \<longrightarrow>
           familiarity (node s) < familiarity (node p)
           \<or> (familiarity (node s) = familiarity (node p)
               \<and> (\<exists>cp. createdTime p = Some cp \<and> cs \<le> cp)))"
proof -
  have eq: "createdTime = (\<lambda>r. timeOrZero parse (created (node r)))"
    by (simp add: ct timeOrZero_def)
  from dates have "\<forall>r\<in>set records. status (node r) = Available \<longrightarrow>
      timeOrZero parse (created (node r)) \<noteq> None"
    by (simp add: eq)
  from pick_available_first_least [OF nodue avail this] show ?thesis
    unfolding eq .
qed

lemma recordsNew_no_due:
  "\<forall>r\<in>set recordsNew. status (node r) \<noteq> Locked \<longrightarrow> \<not> isDue parseSample (Date_UTC 2024 0 1) r"
  by code_simp

lemma recordsNew_available: "\<exists>r\<in>set recordsNew. status (node r) = Available"
  by code_simp

lemma recordsNew_dates:
  "\<forall>r\<in>set recordsNew. status (node r) = Available \<longrightarrow>
     (case created (node r) of None \<Rightarrow> Some 0
      | Some str \<Rightarrow> if str = [] then Some 0 else parseSample str) \<noteq> None"
  by code_simp

lemma recordsNew_pick:
  "pickNextNode parseSample recordsNew (Date_UTC 2024 0 1)
     = \<lparr> result_node = Some nodeQ, reason = Some ''new-available'' \<rparr>"
  by code_simp

lemma recordsNew_fields:
  "map (\<lambda>r. node_id (node r)) recordsNew = [''p/r'', ''p/e'', ''p/p'', ''p/q'', ''p/d'']"
  "map (\<lambda>r. status (node r)) recordsNew
     = [Available, InProgress, Available, Available, Available]"
  "map (\<lambda>r. familiarity (node r)) recordsNew = [2, 0, 1, 1, 1]"
  "map (\<lambda>r. created (node r)) recordsNew
     = [Some ''2023-01-01T00:00:00.000Z'', None, Some ''2023-12-30T00:00:00.000Z'', None,
        Some ''2023-01-01T00:00:00.000Z'']"
  by code_simp+

lemma sample_dates_after_epoch: "0 < Date_UTC 2023 0 1" "0 < Date_UTC 2023 11 30"
  by code_simp+

lemma recordsDE_pick:
  "pickNextNode parseSample recordsDE (Date_UTC 2024 0 1)
     = \<lparr> result_node = Some nodeD, reason = Some ''new-available'' \<rparr>"
  by code_simp

lemma recordsDE_familiarity:
  "status nodeE = InProgress \<and> familiarity nodeE < familiarity nodeD"
  by code_simp

text \<open>
  The theorem at the records \<open>p/r\<close>, \<open>p/e\<close>, \<open>p/p\<close>, \<open>p/q\<close>, \<open>p/d\<close>: the selector returns \<open>p/q\<close>,
  one of the three available nodes of the least familiarity 1 and the one without
  \<^verbatim>\<open>created\<close>; \<open>p/r\<close> has the earliest date of those that have one but a higher familiarity,
  and \<open>p/e\<close>, in progress, has the lowest familiarity of all. On the two records \<open>p/e\<close>,
  \<open>p/d\<close> the selector returns \<open>p/d\<close>.
\<close>

theorem pickNextNode_new_available_witness:
  "map (\<lambda>r. node_id (node r)) recordsNew = [''p/r'', ''p/e'', ''p/p'', ''p/q'', ''p/d'']
   \<and> map (\<lambda>r. status (node r)) recordsNew
       = [Available, InProgress, Available, Available, Available]
   \<and> map (\<lambda>r. familiarity (node r)) recordsNew = [2, 0, 1, 1, 1]
   \<and> map (\<lambda>r. created (node r)) recordsNew
       = [Some ''2023-01-01T00:00:00.000Z'', None, Some ''2023-12-30T00:00:00.000Z'', None,
          Some ''2023-01-01T00:00:00.000Z'']
   \<and> 0 < Date_UTC 2023 0 1 \<and> 0 < Date_UTC 2023 11 30
   \<and> pickNextNode parseSample recordsNew (Date_UTC 2024 0 1)
       = \<lparr> result_node = Some nodeQ, reason = Some ''new-available'' \<rparr>
   \<and> pickNextNode parseSample recordsDE (Date_UTC 2024 0 1)
       = \<lparr> result_node = Some nodeD, reason = Some ''new-available'' \<rparr>
   \<and> status nodeE = InProgress \<and> familiarity nodeE < familiarity nodeD
   \<and> (\<exists>pre s post cs. recordsNew = pre @ s # post
     \<and> pickNextNode parseSample recordsNew (Date_UTC 2024 0 1)
         = \<lparr> result_node = Some (node s), reason = Some ''new-available'' \<rparr>
     \<and> status (node s) = Available
     \<and> (case created (node s) of None \<Rightarrow> Some 0
         | Some str \<Rightarrow> if str = [] then Some 0 else parseSample str) = Some cs
     \<and> (\<forall>p\<in>set pre. status (node p) = Available \<longrightarrow>
           familiarity (node s) < familiarity (node p)
           \<or> (familiarity (node s) = familiarity (node p)
               \<and> (\<exists>cp. (case created (node p) of None \<Rightarrow> Some 0
                         | Some str \<Rightarrow> if str = [] then Some 0 else parseSample str) = Some cp
                        \<and> cs < cp)))
     \<and> (\<forall>p\<in>set post. status (node p) = Available \<longrightarrow>
           familiarity (node s) < familiarity (node p)
           \<or> (familiarity (node s) = familiarity (node p)
               \<and> (\<exists>cp. (case created (node p) of None \<Rightarrow> Some 0
                         | Some str \<Rightarrow> if str = [] then Some 0 else parseSample str) = Some cp
                        \<and> cs \<le> cp))))"
  using recordsNew_fields sample_dates_after_epoch recordsNew_pick recordsDE_pick
    recordsDE_familiarity
    pickNextNode_new_available [OF recordsNew_no_due recordsNew_available recordsNew_dates]
  by blast

text \<open>
  C9. The node that the selector returns, under any of the three reasons, is never
  locked.
\<close>

theorem pickNextNode_never_locked:
  assumes "result_node (pickNextNode parse records now) = Some n"
  shows "status n \<noteq> Locked"
proof -
  let ?due = "filter (\<lambda>r. status (node r) \<noteq> Locked \<and> isDue parse now r) records"
  let ?av = "filter (\<lambda>r. status (node r) = Available) records"
  let ?ip = "filter (\<lambda>r. status (node r) = InProgress) records"
  consider (due) "?due \<noteq> []"
    | (available) "?due = []" "?av \<noteq> []"
    | (inProgress) "?due = []" "?av = []" "?ip \<noteq> []"
    | (none) "?due = []" "?av = []" "?ip = []"
    by blast
  then show ?thesis
  proof cases
    case due
    have "hd (js_sort (compareDue parse) ?due) \<in> set ?due"
      using due by (rule hd_js_sort_in_set)
    then have "status (node (hd (js_sort (compareDue parse) ?due))) \<noteq> Locked" by simp
    with assms pick_due [OF due] show ?thesis by simp
  next
    case available
    have "hd (js_sort (compareAvailable parse) ?av) \<in> set ?av"
      using available(2) by (rule hd_js_sort_in_set)
    then have "status (node (hd (js_sort (compareAvailable parse) ?av))) = Available" by simp
    with assms pick_available [OF available] show ?thesis by simp
  next
    case inProgress
    have "hd (js_sort compareFamiliarity ?ip) \<in> set ?ip"
      using inProgress(3) by (rule hd_js_sort_in_set)
    then have "status (node (hd (js_sort compareFamiliarity ?ip))) = InProgress" by simp
    with assms pick_inProgress [OF inProgress] show ?thesis by simp
  next
    case none
    with assms pick_none [OF none] show ?thesis by simp
  qed
qed

lemma recordsLocked_pick:
  "pickNextNode parseSample recordsLocked (Date_UTC 2024 0 1)
     = \<lparr> result_node = Some nodeE, reason = Some ''continue'' \<rparr>"
  by code_simp

theorem pickNextNode_never_locked_witness:
  "result_node (pickNextNode parseSample recordsLocked (Date_UTC 2024 0 1)) = Some nodeE
   \<and> status nodeE \<noteq> Locked"
  using recordsLocked_pick
    pickNextNode_never_locked [of parseSample recordsLocked "Date_UTC 2024 0 1" nodeE]
  by simp

section \<open>Properties of the unlock pass\<close>

lemma fold_table_Some:
  assumes step: "\<And>i m p. f i m p = (if p = key i then Some i else m p)"
  shows "fold f [0..<n] Map.empty pid = Some j
   \<Longrightarrow> j < n \<and> key j = pid \<and> (\<forall>k. j < k \<and> k < n \<longrightarrow> key k \<noteq> pid)"
proof (induction n arbitrary: j)
  case 0
  then show ?case by simp
next
  case (Suc n)
  have unfold: "fold f [0..<Suc n] Map.empty pid
      = (if pid = key n then Some n else fold f [0..<n] Map.empty pid)"
    by (simp add: step)
  show ?case
  proof (cases "pid = key n")
    case True
    with Suc.prems unfold have "j = n" by simp
    with True show ?thesis by auto
  next
    case False
    with Suc.prems unfold have "fold f [0..<n] Map.empty pid = Some j" by simp
    from Suc.IH [OF this] False show ?thesis by (auto simp add: less_Suc_eq)
  qed
qed

lemma fold_table_None:
  assumes step: "\<And>i m p. f i m p = (if p = key i then Some i else m p)"
  shows "fold f [0..<n] Map.empty pid = None \<longleftrightarrow> (\<forall>j<n. key j \<noteq> pid)"
proof (induction n)
  case 0
  then show ?case by simp
next
  case (Suc n)
  have "fold f [0..<Suc n] Map.empty pid
      = (if pid = key n then Some n else fold f [0..<n] Map.empty pid)"
    by (simp add: step)
  with Suc.IH show ?case by (auto simp add: less_Suc_eq)
qed

lemma byId_prefix_Some:
  "fold (\<lambda>i m. m(node_id (node (records ! i)) \<mapsto> i)) [0..<n] Map.empty pid = Some j
   \<Longrightarrow> j < n \<and> node_id (node (records ! j)) = pid
       \<and> (\<forall>k. j < k \<and> k < n \<longrightarrow> node_id (node (records ! k)) \<noteq> pid)"
  by (rule fold_table_Some [where key = "\<lambda>i. node_id (node (records ! i))"]) simp_all

lemma byId_prefix_None:
  "fold (\<lambda>i m. m(node_id (node (records ! i)) \<mapsto> i)) [0..<n] Map.empty pid = None
   \<longleftrightarrow> (\<forall>j<n. node_id (node (records ! j)) \<noteq> pid)"
  by (rule fold_table_None [where key = "\<lambda>i. node_id (node (records ! i))"]) simp

lemma byId_Some:
  "byId records pid = Some j \<Longrightarrow>
     j < length records \<and> node_id (node (records ! j)) = pid
     \<and> (\<forall>k. j < k \<and> k < length records \<longrightarrow> node_id (node (records ! k)) \<noteq> pid)"
  unfolding byId_def by (rule byId_prefix_Some)

lemma byId_None_iff:
  "byId records pid = None \<longleftrightarrow> pid \<notin> (\<lambda>r. node_id (node r)) ` set records"
proof -
  have "(\<forall>j<length records. node_id (node (records ! j)) \<noteq> pid)
      \<longleftrightarrow> pid \<notin> (\<lambda>r. node_id (node r)) ` set records"
  proof
    assume a: "\<forall>j<length records. node_id (node (records ! j)) \<noteq> pid"
    show "pid \<notin> (\<lambda>r. node_id (node r)) ` set records"
    proof
      assume "pid \<in> (\<lambda>r. node_id (node r)) ` set records"
      then obtain r where "r \<in> set records" "pid = node_id (node r)" by blast
      then obtain j where "j < length records" "records ! j = r"
        by (auto simp add: in_set_conv_nth)
      with a \<open>pid = node_id (node r)\<close> show False by auto
    qed
  next
    assume a: "pid \<notin> (\<lambda>r. node_id (node r)) ` set records"
    show "\<forall>j<length records. node_id (node (records ! j)) \<noteq> pid"
    proof (intro allI impI)
      fix j assume "j < length records"
      then have "records ! j \<in> set records" by simp
      with a show "node_id (node (records ! j)) \<noteq> pid" by blast
    qed
  qed
  then show ?thesis unfolding byId_def byId_prefix_None .
qed

text \<open>With ids that are unique, the table finds every record by its id.\<close>

lemma byId_distinct:
  assumes "distinct (map (\<lambda>r. node_id (node r)) records)" "j < length records"
  shows "byId records (node_id (node (records ! j))) = Some j"
proof -
  have "node_id (node (records ! j)) \<in> (\<lambda>r. node_id (node r)) ` set records"
    using assms(2) by simp
  then obtain k where k: "byId records (node_id (node (records ! j))) = Some k"
    using byId_None_iff [of records "node_id (node (records ! j))"] by auto
  from byId_Some [OF k] have "k < length records"
    "node_id (node (records ! k)) = node_id (node (records ! j))" by simp_all
  then have same: "map (\<lambda>r. node_id (node r)) records ! k
      = map (\<lambda>r. node_id (node r)) records ! j"
    using assms(2) by simp
  have "(map (\<lambda>r. node_id (node r)) records ! k = map (\<lambda>r. node_id (node r)) records ! j)
      = (k = j)"
    using assms \<open>k < length records\<close> by (intro nth_eq_iff_index_eq) simp_all
  with same have "k = j" by blast
  with k show ?thesis by simp
qed

lemma meetsPrereqs_iff:
  "meetsPrereqs store (byId records) thr r \<longleftrightarrow>
     (\<forall>pid\<in>set (prerequisites (node r)).
        \<exists>j<length records. byId records pid = Some j \<and> node_id (node (records ! j)) = pid
          \<and> (status (node (store ! j)) = Mastered \<or> familiarity (node (store ! j)) \<ge> thr))"
proof -
  have "(case getNode store (byId records) pid of None \<Rightarrow> False
         | Some prereq \<Rightarrow> status prereq = Mastered \<or> familiarity prereq \<ge> thr)
      \<longleftrightarrow> (\<exists>j<length records. byId records pid = Some j \<and> node_id (node (records ! j)) = pid
          \<and> (status (node (store ! j)) = Mastered \<or> familiarity (node (store ! j)) \<ge> thr))"
    for pid
  proof (cases "byId records pid")
    case None
    then show ?thesis by (simp add: getNode_def)
  next
    case (Some j)
    with byId_Some [OF Some] show ?thesis by (simp add: getNode_def)
  qed
  then show ?thesis by (simp add: meetsPrereqs_def list_all_iff)
qed

text \<open>
  The test of the prerequisites reads the familiarity of a record and whether its status
  is mastered; a store that agrees with the snapshot on both gives the same answer.
\<close>

lemma meetsPrereqs_stable:
  assumes "\<forall>j<length records. familiarity (node (store ! j)) = familiarity (node (records ! j))
             \<and> (status (node (store ! j)) = Mastered \<longleftrightarrow> status (node (records ! j)) = Mastered)"
  shows "meetsPrereqs store (byId records) thr r = meetsPrereqs records (byId records) thr r"
  unfolding meetsPrereqs_iff using assms by (intro ball_cong refl ex_cong1) auto

lemma setAvailable_simps [simp]:
  "status (node (setAvailable r)) = Available"
  "familiarity (node (setAvailable r)) = familiarity (node r)"
  "prerequisites (node (setAvailable r)) = prerequisites (node r)"
  "node_id (node (setAvailable r)) = node_id (node r)"
  by (simp_all add: setAvailable_def)

text \<open>
  One round of the pass, on a store in which the records before position \<open>k\<close> have been
  treated as the snapshot says and the others are untouched.
\<close>

lemma unlockStep_on_snapshot:
  assumes k: "k < length records"
    and len: "length store = length records"
    and nth: "\<forall>i<length records. store ! i =
        (if i < k \<and> unlocksOnSnapshot records thr (records ! i)
         then setAvailable (records ! i) else records ! i)"
  shows "unlockStep (byId records) thr k (store, unlocked) =
     (if unlocksOnSnapshot records thr (records ! k)
      then (store[k := setAvailable (records ! k)], unlocked @ [k])
      else (store, unlocked))"
proof -
  have at_k: "store ! k = records ! k" using k nth by simp
  have agree: "\<forall>j<length records.
      familiarity (node (store ! j)) = familiarity (node (records ! j))
      \<and> (status (node (store ! j)) = Mastered \<longleftrightarrow> status (node (records ! j)) = Mastered)"
  proof (intro allI impI)
    fix j assume j: "j < length records"
    show "familiarity (node (store ! j)) = familiarity (node (records ! j))
      \<and> (status (node (store ! j)) = Mastered \<longleftrightarrow> status (node (records ! j)) = Mastered)"
    proof (cases "j < k \<and> unlocksOnSnapshot records thr (records ! j)")
      case True
      then have "store ! j = setAvailable (records ! j)" using nth j by simp
      moreover have "status (node (records ! j)) = Locked"
        using True by (simp add: unlocksOnSnapshot_def)
      ultimately show ?thesis by simp
    next
      case False
      then have "store ! j = records ! j" using nth j by auto
      then show ?thesis by simp
    qed
  qed
  have "meetsPrereqs store (byId records) thr (records ! k)
      = meetsPrereqs records (byId records) thr (records ! k)"
    using agree by (rule meetsPrereqs_stable)
  then show ?thesis
    by (simp add: unlockStep_def Let_def at_k unlocksOnSnapshot_def)
qed

lemma unlock_fold:
  assumes "k \<le> length records"
  shows "length (fst (fold (unlockStep (byId records) thr) [0..<k] (records, [])))
           = length records
     \<and> (\<forall>i<length records.
           fst (fold (unlockStep (byId records) thr) [0..<k] (records, [])) ! i =
           (if i < k \<and> unlocksOnSnapshot records thr (records ! i)
            then setAvailable (records ! i) else records ! i))
     \<and> snd (fold (unlockStep (byId records) thr) [0..<k] (records, []))
           = filter (\<lambda>i. unlocksOnSnapshot records thr (records ! i)) [0..<k]"
  using assms
proof (induction k)
  case 0
  then show ?case by simp
next
  case (Suc k)
  define S where "S = fold (unlockStep (byId records) thr) [0..<k] (records, [])"
  have k: "k < length records" using Suc.prems by simp
  from Suc.IH have len: "length (fst S) = length records"
    and nth: "\<forall>i<length records. fst S ! i =
        (if i < k \<and> unlocksOnSnapshot records thr (records ! i)
         then setAvailable (records ! i) else records ! i)"
    and un: "snd S = filter (\<lambda>i. unlocksOnSnapshot records thr (records ! i)) [0..<k]"
    using k unfolding S_def by simp_all
  have "fold (unlockStep (byId records) thr) [0..<Suc k] (records, [])
      = unlockStep (byId records) thr k (fst S, snd S)"
    by (simp add: S_def)
  also have "\<dots> = (if unlocksOnSnapshot records thr (records ! k)
      then ((fst S)[k := setAvailable (records ! k)], snd S @ [k])
      else (fst S, snd S))"
    using k len nth by (rule unlockStep_on_snapshot)
  finally have step: "fold (unlockStep (byId records) thr) [0..<Suc k] (records, [])
      = (if unlocksOnSnapshot records thr (records ! k)
         then ((fst S)[k := setAvailable (records ! k)], snd S @ [k])
         else (fst S, snd S))" .
  show ?case
  proof (cases "unlocksOnSnapshot records thr (records ! k)")
    case True
    have "(fst S)[k := setAvailable (records ! k)] ! i =
           (if i < Suc k \<and> unlocksOnSnapshot records thr (records ! i)
            then setAvailable (records ! i) else records ! i)"
      if i: "i < length records" for i
    proof (cases "i = k")
      case eq: True
      then show ?thesis using len k True by simp
    next
      case False
      then have "(fst S)[k := setAvailable (records ! k)] ! i = fst S ! i" by simp
      also have "\<dots> = (if i < k \<and> unlocksOnSnapshot records thr (records ! i)
            then setAvailable (records ! i) else records ! i)"
        using nth i by simp
      also have "\<dots> = (if i < Suc k \<and> unlocksOnSnapshot records thr (records ! i)
            then setAvailable (records ! i) else records ! i)"
        using False by (simp add: less_Suc_eq)
      finally show ?thesis .
    qed
    then show ?thesis using True step len un by simp
  next
    case False
    have "\<forall>i<length records. fst S ! i =
           (if i < Suc k \<and> unlocksOnSnapshot records thr (records ! i)
            then setAvailable (records ! i) else records ! i)"
      using nth False by (auto simp add: less_Suc_eq)
    then show ?thesis using False step len un by simp
  qed
qed

text \<open>The pass computes what the snapshot reading says.\<close>

lemma unlock_pass_is_snapshot:
  "unlockEligibleNodes records thr = unlockFromSnapshot records thr"
proof -
  let ?S = "fold (unlockStep (byId records) thr) [0..<length records] (records, [])"
  from unlock_fold [of "length records" records thr]
  have len: "length (fst ?S) = length records"
    and nth: "\<forall>i<length records. fst ?S ! i =
           (if unlocksOnSnapshot records thr (records ! i)
            then setAvailable (records ! i) else records ! i)"
    and un: "snd ?S = filter (\<lambda>i. unlocksOnSnapshot records thr (records ! i))
                        [0..<length records]"
    by simp_all
  have "fst ?S = map (\<lambda>record. if unlocksOnSnapshot records thr record
                     then setAvailable record else record) records"
    using len nth by (intro nth_equalityI) simp_all
  with un show ?thesis
    by (simp add: unlockEligibleNodes_def unlockFromSnapshot_def prod_eq_iff)
qed







lemma recordsChain_pass:
  "unlockEligibleNodes recordsChain 4
     = ([sampleRecord nodeA, sampleRecord (nodeB\<lparr> status := Available \<rparr>), sampleRecord nodeAfterB],
        [1])"
  by code_simp

lemma recordsChain_snapshot:
  "unlockFromSnapshot recordsChain 4
     = ([sampleRecord nodeA, sampleRecord (nodeB\<lparr> status := Available \<rparr>), sampleRecord nodeAfterB],
        [1])"
  by code_simp

text \<open>
  C8. The unlock pass is a single pass: the records after the pass and the returned
  array are those of \<^term>\<open>unlockFromSnapshot\<close>, which tests every locked record against
  the records as they were before the call. A record unlocked earlier in the pass does
  not make a later record that lists it as a prerequisite unlock.
\<close>

theorem unlockEligibleNodes_single_pass:
  "unlockEligibleNodes records thr = unlockFromSnapshot records thr"
  by (rule unlock_pass_is_snapshot)

theorem unlockEligibleNodes_single_pass_witness:
  "unlockEligibleNodes recordsChain 4 = unlockFromSnapshot recordsChain 4
   \<and> fst (unlockEligibleNodes recordsChain 4)
       = [sampleRecord nodeA, sampleRecord (nodeB\<lparr> status := Available \<rparr>),
          sampleRecord nodeAfterB]
   \<and> status nodeAfterB = Locked \<and> prerequisites nodeAfterB = [node_id nodeB]
   \<and> snd (unlockEligibleNodes recordsChain 4) = [1]"
proof -
  have sample: "status nodeAfterB = Locked \<and> prerequisites nodeAfterB = [node_id nodeB]"
    by code_simp
  have same: "unlockEligibleNodes recordsChain 4 = unlockFromSnapshot recordsChain 4"
    by (rule unlockEligibleNodes_single_pass)
  have "fst (unlockEligibleNodes recordsChain 4)
       = [sampleRecord nodeA, sampleRecord (nodeB\<lparr> status := Available \<rparr>),
          sampleRecord nodeAfterB]"
    by (simp add: recordsChain_pass)
  moreover have "snd (unlockEligibleNodes recordsChain 4) = [1]"
    by (simp add: recordsChain_pass)
  ultimately show ?thesis using sample same by blast
qed

end
